theory Spec2Isabelle
  imports Main "HOL-Library.AList" "HOL-Library.Char_ord" "HOL-Library.List_Lexorder"
begin

section \<open>The listing proxy of gcsproxy/listing\_proxy.go\<close>

text \<open>
  A \<open>ListingProxy\<close> is a view on one "directory" of a bucket. It caches the listing of
  the directory and a journal of the children that were added or removed locally.

  Conventions of the embedding:
  \<^item> a Go \<open>string\<close> is a \<open>string\<close> (a list of 8-bit characters);
  \<^item> a \<open>time.Time\<close> is an \<open>int\<close>, the number of nanoseconds since the zero \<open>time.Time\<close>,
    which is \<open>0\<close>; \<open>t.Before(u)\<close> is \<open>t < u\<close>; \<open>t.Add(d)\<close> is \<open>Time_Add t d\<close>, which does not
    leave the range of \<open>time.Time\<close>; a \<open>time.Duration\<close> is an \<open>int\<close> of nanoseconds as in
    Go;
  \<^item> a \<open>*storage.Object\<close> is the value it points to: its \<open>Name\<close> and the rest of its
    fields, an opaque payload; the proxy never writes to an object, and a nil object is
    not modelled;
  \<^item> a Go \<open>map\<close> is an association list with \<open>map_of\<close> for lookup, \<open>AList.update\<close> for
    assignment and \<open>AList.delete\<close> for \<open>delete\<close>; the order of the list stands for the
    unspecified iteration order of the map;
  \<^item> a \<open>*list.Element\<close> is a pair of an address and the \<open>childModification\<close> stored in it
    (the code never changes the \<open>Value\<close> of an element); \<open>PushBack\<close> takes the next free
    address;
  \<^item> a panic (the nil dereference inside \<open>list.Remove\<close>) is the result \<open>None\<close>;
  \<^item> the collaborators are an environment: the \<open>k\<close>-th call of \<open>clock.Now()\<close> returns
    \<open>clock_Now env k\<close> and the \<open>k\<close>-th call of \<open>gcsutil.List\<close> on the bucket returns
    \<open>gcsutil_List env k\<close>; the proxy's fields \<open>clock\<close> and \<open>bucket\<close> count the calls made.
\<close>

subsection \<open>Data\<close>

record 'm Object =
  Name :: string
  payload :: 'm

datatype 'm node = ObjectNode "'m Object" | SubdirNode string

record 'm childModification =
  m_expiration :: int
  m_name :: string
  m_node :: "'m node option"

type_synonym 'm Element = "nat \<times> 'm childModification"

record 'm ListingProxy =
  bucket :: nat
  clock :: nat
  name :: string
  contents :: "(string \<times> 'm node) list"
  contentsExpiration :: int
  childModifications :: "'m Element list"
  childModificationsIndex :: "(string \<times> 'm Element) list"
  nextElement :: nat

record ('m, 'e) env =
  clock_Now :: "nat \<Rightarrow> int"
  gcsutil_List :: "nat \<Rightarrow> 'e + ('m Object list \<times> string list)"

datatype name_error = NotAnObjectName | NotADirectoryName | NotADescendant | NotADirectDescendant

datatype 'e error =
    IllegalDirectoryName string
  | IllegalObjectName name_error string
  | IllegalSubdirName name_error string
  | TodoNoteNewSubdirectory
  | TodoNoteRemoval
  | GcsutilListFailed 'e
  | BadObjectNameListed name_error string
  | BadSubdirNameListed name_error string
  | NonDescendantDirListed string

definition ListingProxy_ListingCacheTTL :: int where
  "ListingProxy_ListingCacheTTL = 10 * 1000000000"

definition ListingProxy_ModificationMemoryTTL :: int where
  "ListingProxy_ModificationMemoryTTL = 5 * (60 * 1000000000)"

text \<open>A \<open>time.Time\<close> holds a count of seconds in an \<open>int64\<close> and the nanoseconds within the
  second. \<open>Add\<close> adds the duration and, where the seconds would leave the \<open>int64\<close>, stops
  at its last (or first) second and keeps the nanoseconds: near the end of the range
  the result is before the sum, and can be the time itself.\<close>

definition Time_maxSec :: int where
  "Time_maxSec = 2 ^ 63 - 1"

definition Time_Add :: "int \<Rightarrow> int \<Rightarrow> int" where
  "Time_Add t d =
     (let sec = (t + d) div 1000000000;
          nsec = (t + d) mod 1000000000
      in (if Time_maxSec < sec then Time_maxSec
          else if sec < - Time_maxSec - 1 then - Time_maxSec
          else sec) * 1000000000 + nsec)"

subsection \<open>Strings\<close>

text \<open>The functions of Go's package \<open>strings\<close> that the proxy calls.\<close>

definition HasPrefix :: "string \<Rightarrow> string \<Rightarrow> bool" where
  "HasPrefix s p \<longleftrightarrow> length p \<le> length s \<and> take (length p) s = p"

definition TrimPrefix :: "string \<Rightarrow> string \<Rightarrow> string" where
  "TrimPrefix s p = (if HasPrefix s p then drop (length p) s else s)"

fun IndexByte :: "string \<Rightarrow> char \<Rightarrow> int" where
  "IndexByte [] c = - 1"
| "IndexByte (x # xs) c =
     (if x = c then 0 else (let i = IndexByte xs c in if i < 0 then - 1 else i + 1))"

subsection \<open>Names\<close>

definition isDirName :: "string \<Rightarrow> bool" where
  "isDirName n \<longleftrightarrow> n = [] \<or> last n = CHR ''/''"

definition checkObjectName :: "string \<Rightarrow> string \<Rightarrow> name_error option" where
  "checkObjectName lp_name n =
     (if isDirName n then Some NotAnObjectName
      else let trimmed = TrimPrefix n lp_name in
        if n = trimmed then Some NotADescendant
        else if IndexByte trimmed (CHR ''/'') \<ge> 0 then Some NotADirectDescendant
        else None)"

definition checkSubdirName :: "string \<Rightarrow> string \<Rightarrow> name_error option" where
  "checkSubdirName lp_name n =
     (if \<not> isDirName n then Some NotADirectoryName
      else let trimmed = TrimPrefix n lp_name in
        if n = lp_name \<or> n = trimmed then Some NotADescendant
        else if IndexByte trimmed (CHR ''/'') \<noteq> int (length trimmed) - 1
          then Some NotADirectDescendant
        else None)"

subsection \<open>Construction\<close>

definition NewListingProxy :: "nat \<Rightarrow> nat \<Rightarrow> string \<Rightarrow> 'e error + 'm ListingProxy" where
  "NewListingProxy b c dir =
     (if \<not> isDirName dir then Inl (IllegalDirectoryName dir)
      else Inr \<lparr> bucket = b, clock = c, name = dir, contents = [],
                 contentsExpiration = 0, childModifications = [],
                 childModificationsIndex = [], nextElement = 0 \<rparr>)"

subsection \<open>The journal of modifications\<close>

definition Remove :: "'m Element \<Rightarrow> 'm Element list \<Rightarrow> 'm Element list" where
  "Remove e l = filter (\<lambda>x. fst x \<noteq> fst e) l"

definition playBackModification ::
  "'m childModification \<Rightarrow> 'm ListingProxy \<Rightarrow> 'm ListingProxy" where
  "playBackModification m lp =
     (case m_node m of
        None \<Rightarrow> lp\<lparr>contents := AList.delete (m_name m) (contents lp)\<rparr>
      | Some n \<Rightarrow> lp\<lparr>contents := AList.update (m_name m) n (contents lp)\<rparr>)"

text \<open>The second loop of \<open>cleanChildModifications\<close>: each noted name is looked up in the
  index and its element removed; a name the index lacks gives a nil element, on which
  \<open>list.Remove\<close> panics.\<close>

fun removeNames :: "string list \<Rightarrow> 'm ListingProxy \<Rightarrow> 'm ListingProxy option" where
  "removeNames [] lp = Some lp"
| "removeNames (n # ns) lp =
     (case map_of (childModificationsIndex lp) n of
        None \<Rightarrow> None
      | Some e \<Rightarrow>
          removeNames ns
            (lp\<lparr>childModifications := Remove e (childModifications lp),
                childModificationsIndex := AList.delete n (childModificationsIndex lp)\<rparr>))"

definition expiredNames :: "int \<Rightarrow> 'm Element list \<Rightarrow> string list" where
  "expiredNames now l = map (\<lambda>e. m_name (snd e)) (takeWhile (\<lambda>e. \<not> now < m_expiration (snd e)) l)"

definition cleanChildModifications ::
  "('m, 'e) env \<Rightarrow> 'm ListingProxy \<Rightarrow> 'm ListingProxy option" where
  "cleanChildModifications env lp =
     (let now = clock_Now env (clock lp);
          lp1 = lp\<lparr>clock := clock lp + 1\<rparr>
      in removeNames (expiredNames now (childModifications lp1)) lp1)"

subsection \<open>Noting local modifications\<close>

text \<open>Each of the three functions defers \<open>cleanChildModifications\<close>: it runs when the
  body has returned, whatever the body returns.\<close>

definition NoteNewObject_body ::
  "('m, 'e) env \<Rightarrow> 'm Object \<Rightarrow> 'm ListingProxy \<Rightarrow> 'm ListingProxy \<times> 'e error option" where
  "NoteNewObject_body env o' lp =
     (let n = Name o' in
      case checkObjectName (name lp) n of
        Some err \<Rightarrow> (lp, Some (IllegalObjectName err n))
      | None \<Rightarrow>
          let lp1 = (case map_of (childModificationsIndex lp) n of
                       Some e \<Rightarrow>
                         lp\<lparr>childModifications := Remove e (childModifications lp),
                            childModificationsIndex := AList.delete n (childModificationsIndex lp)\<rparr>
                     | None \<Rightarrow> lp);
              m = \<lparr> m_expiration = Time_Add (clock_Now env (clock lp1)) ListingProxy_ModificationMemoryTTL,
                    m_name = n, m_node = Some (ObjectNode o') \<rparr>;
              lp2 = lp1\<lparr>clock := clock lp1 + 1\<rparr>;
              e = (nextElement lp2, m);
              lp3 = lp2\<lparr>childModifications := childModifications lp2 @ [e],
                        childModificationsIndex :=
                          AList.update (m_name m) e (childModificationsIndex lp2),
                        nextElement := nextElement lp2 + 1\<rparr>
          in (playBackModification m lp3, None))"

definition NoteNewObject ::
  "('m, 'e) env \<Rightarrow> 'm Object \<Rightarrow> 'm ListingProxy \<Rightarrow> ('m ListingProxy \<times> 'e error option) option" where
  "NoteNewObject env o' lp =
     (case NoteNewObject_body env o' lp of
        (lp', err) \<Rightarrow> map_option (\<lambda>lp''. (lp'', err)) (cleanChildModifications env lp'))"

definition NoteNewSubdirectory ::
  "('m, 'e) env \<Rightarrow> string \<Rightarrow> 'm ListingProxy \<Rightarrow> ('m ListingProxy \<times> 'e error option) option" where
  "NoteNewSubdirectory env n lp =
     (let err = (case checkSubdirName (name lp) n of
                   Some err \<Rightarrow> IllegalSubdirName err n
                 | None \<Rightarrow> TodoNoteNewSubdirectory)
      in map_option (\<lambda>lp'. (lp', Some err)) (cleanChildModifications env lp))"

definition NoteRemoval ::
  "('m, 'e) env \<Rightarrow> string \<Rightarrow> 'm ListingProxy \<Rightarrow> ('m ListingProxy \<times> 'e error option) option" where
  "NoteRemoval env n lp =
     map_option (\<lambda>lp'. (lp', Some TodoNoteRemoval)) (cleanChildModifications env lp)"

subsection \<open>Listing\<close>

text \<open>The two loops of \<open>ensureContents\<close> over the listing, which fill the new map.\<close>

fun processObjects ::
  "string \<Rightarrow> 'm Object list \<Rightarrow> (string \<times> 'm node) list \<Rightarrow> 'e error + (string \<times> 'm node) list" where
  "processObjects lp_name [] c = Inr c"
| "processObjects lp_name (o' # os) c =
     (if Name o' = lp_name then processObjects lp_name os c
      else case checkObjectName lp_name (Name o') of
             Some err \<Rightarrow> Inl (BadObjectNameListed err (Name o'))
           | None \<Rightarrow> processObjects lp_name os (AList.update (Name o') (ObjectNode o') c))"

fun processSubdirs ::
  "string \<Rightarrow> string list \<Rightarrow> (string \<times> 'm node) list \<Rightarrow> 'e error + (string \<times> 'm node) list" where
  "processSubdirs lp_name [] c = Inr c"
| "processSubdirs lp_name (d # ds) c =
     (case checkSubdirName lp_name d of
        Some err \<Rightarrow> Inl (BadSubdirNameListed err d)
      | None \<Rightarrow>
          if \<not> (HasPrefix d lp_name \<and> d \<noteq> lp_name) then Inl (NonDescendantDirListed d)
          else processSubdirs lp_name ds (AList.update d (SubdirNode d) c))"

definition ensureContents ::
  "('m, 'e) env \<Rightarrow> 'm ListingProxy \<Rightarrow> ('m ListingProxy \<times> 'e error option) option" where
  "ensureContents env lp =
     (let now = clock_Now env (clock lp);
          lp1 = lp\<lparr>clock := clock lp + 1\<rparr>
      in if now < contentsExpiration lp1 then Some (lp1, None)
         else
           let listed = gcsutil_List env (bucket lp1);
               lp2 = lp1\<lparr>bucket := bucket lp1 + 1\<rparr>
           in case listed of
                Inl err \<Rightarrow> Some (lp2, Some (GcsutilListFailed err))
              | Inr (objects, subdirs) \<Rightarrow>
                  (case processObjects (name lp2) objects [] of
                     Inl err \<Rightarrow> Some (lp2, Some err)
                   | Inr c1 \<Rightarrow>
                       (case processSubdirs (name lp2) subdirs c1 of
                          Inl err \<Rightarrow> Some (lp2, Some err)
                        | Inr c2 \<Rightarrow>
                            (case cleanChildModifications env lp2 of
                               None \<Rightarrow> None
                             | Some lp3 \<Rightarrow>
                                 let lp4 = lp3\<lparr>contents := c2,
                                               contentsExpiration :=
                                                 Time_Add (clock_Now env (clock lp3)) ListingProxy_ListingCacheTTL,
                                               clock := clock lp3 + 1\<rparr>
                                 in Some (fold playBackModification
                                            (map snd (childModifications lp4)) lp4, None)))))"

fun readObjects :: "(string \<times> 'm node) list \<Rightarrow> 'm Object list" where
  "readObjects [] = []"
| "readObjects ((k, ObjectNode o') # c) = o' # readObjects c"
| "readObjects ((k, SubdirNode d) # c) = readObjects c"

fun readSubdirs :: "(string \<times> 'm node) list \<Rightarrow> string list" where
  "readSubdirs [] = []"
| "readSubdirs ((k, ObjectNode o') # c) = readSubdirs c"
| "readSubdirs ((k, SubdirNode d) # c) = k # readSubdirs c"

definition ListObjects ::
  "('m, 'e) env \<Rightarrow> 'm ListingProxy \<Rightarrow>
     ('m ListingProxy \<times> ('e error + 'm Object list \<times> string list)) option" where
  "ListObjects env lp =
     (case ensureContents env lp of
        None \<Rightarrow> None
      | Some (lp', Some err) \<Rightarrow> Some (lp', Inl err)
      | Some (lp', None) \<Rightarrow>
          Some (lp', Inr (readObjects (contents lp'), readSubdirs (contents lp'))))"

subsection \<open>The invariants\<close>

fun noAdjacentDuplicate :: "string list \<Rightarrow> bool" where
  "noAdjacentDuplicate (x # y # ys) \<longleftrightarrow> x \<noteq> y \<and> noAdjacentDuplicate (y # ys)"
| "noAdjacentDuplicate _ \<longleftrightarrow> True"

definition contentsEntryOk :: "string \<Rightarrow> string \<times> 'm node \<Rightarrow> bool" where
  "contentsEntryOk lp_name kn =
     (case kn of (k, n) \<Rightarrow>
        HasPrefix k lp_name \<and> k \<noteq> lp_name \<and>
        (case n of
           SubdirNode d \<Rightarrow> k = d \<and> checkSubdirName lp_name d = None
         | ObjectNode o' \<Rightarrow> k = Name o' \<and> checkObjectName lp_name (Name o') = None))"

definition modificationOk :: "(string \<times> 'm node) list \<Rightarrow> 'm Element \<Rightarrow> bool" where
  "modificationOk c e =
     (let m = snd e in
      case m_node m of
        None \<Rightarrow> map_of c (m_name m) = None
      | Some n \<Rightarrow> map_of c (m_name m) = Some n)"

text \<open>\<open>CheckInvariants\<close> panics when an invariant is broken; the model returns whether
  it runs to its end.\<close>

definition CheckInvariants :: "'m ListingProxy \<Rightarrow> bool" where
  "CheckInvariants lp \<longleftrightarrow>
     isDirName (name lp) \<and>
     list_all (contentsEntryOk (name lp)) (contents lp) \<and>
     list_all (modificationOk (contents lp)) (childModifications lp) \<and>
     noAdjacentDuplicate (sort (map (\<lambda>e. m_name (snd e)) (childModifications lp))) \<and>
     list_all (\<lambda>(n, e). m_name (snd e) = n) (childModificationsIndex lp) \<and>
     sort (map (\<lambda>e. m_name (snd e)) (childModifications lp)) =
       sort (map fst (childModificationsIndex lp))"

subsection \<open>Sequences of calls\<close>

datatype 'm call =
    CallNoteNewObject "'m Object"
  | CallNoteNewSubdirectory string
  | CallNoteRemoval string
  | CallList

text \<open>A call changes the proxy and returns an error or not; \<open>perform\<close> keeps the proxy,
  \<open>None\<close> is a panic.\<close>

fun perform :: "('m, 'e) env \<Rightarrow> 'm call \<Rightarrow> 'm ListingProxy \<Rightarrow> 'm ListingProxy option" where
  "perform env (CallNoteNewObject o') lp = map_option fst (NoteNewObject env o' lp)"
| "perform env (CallNoteNewSubdirectory n) lp = map_option fst (NoteNewSubdirectory env n lp)"
| "perform env (CallNoteRemoval n) lp = map_option fst (NoteRemoval env n lp)"
| "perform env CallList lp = map_option fst (ListObjects env lp)"

fun run :: "('m, 'e) env \<Rightarrow> 'm call list \<Rightarrow> 'm ListingProxy \<Rightarrow> 'm ListingProxy option" where
  "run env [] lp = Some lp"
| "run env (c # cs) lp =
     (case perform env c lp of None \<Rightarrow> None | Some lp' \<Rightarrow> run env cs lp')"

text \<open>The proxies that a program can hold are made by \<open>NewListingProxy\<close> and changed by
  calls only: a proxy \<open>lp\<close> with \<open>NewListingProxy b c dir = Inr lp0\<close> and
  \<open>run env cs lp0 = Some lp\<close> for some sequence \<open>cs\<close> of calls.\<close>

subsection \<open>What holds of every proxy between calls\<close>

definition names_of :: "'m Element list \<Rightarrow> string list" where
  "names_of l = map (\<lambda>e. m_name (snd e)) l"

text \<open>The list of modifications and its index agree: addresses and names are not
  repeated, every address has been handed out, and the index holds each element of the
  list under its name and nothing else.\<close>

definition journalOk :: "'m ListingProxy \<Rightarrow> bool" where
  "journalOk lp \<longleftrightarrow>
     distinct (map fst (childModifications lp)) \<and>
     distinct (names_of (childModifications lp)) \<and>
     list_all (\<lambda>e. fst e < nextElement lp) (childModifications lp) \<and>
     distinct (map fst (childModificationsIndex lp)) \<and>
     set (childModificationsIndex lp) =
       set (map (\<lambda>e. (m_name (snd e), e)) (childModifications lp))"

text \<open>Every modification that the code records is the addition of an object with a legal
  name, and the contents hold that object.\<close>

definition recordOk :: "string \<Rightarrow> (string \<times> 'm node) list \<Rightarrow> 'm Element \<Rightarrow> bool" where
  "recordOk lp_name c e =
     (case m_node (snd e) of
        Some (ObjectNode o') \<Rightarrow>
          m_name (snd e) = Name o' \<and> checkObjectName lp_name (Name o') = None \<and>
          map_of c (Name o') = Some (ObjectNode o')
      | _ \<Rightarrow> False)"

definition sound :: "'m ListingProxy \<Rightarrow> bool" where
  "sound lp \<longleftrightarrow>
     isDirName (name lp) \<and>
     distinct (map fst (contents lp)) \<and>
     list_all (contentsEntryOk (name lp)) (contents lp) \<and>
     journalOk lp \<and>
     list_all (recordOk (name lp) (contents lp)) (childModifications lp)"

text \<open>The contents after the modifications \<open>ms\<close> have been played back on \<open>c\<close>.\<close>

definition playedBack ::
  "'m childModification list \<Rightarrow> (string \<times> 'm node) list \<Rightarrow> (string \<times> 'm node) list" where
  "playedBack ms c =
     fold (\<lambda>m c'. case m_node m of
                     None \<Rightarrow> AList.delete (m_name m) c'
                   | Some n \<Rightarrow> AList.update (m_name m) n c') ms c"

text \<open>The proxy after the modifications that have expired at \<open>now\<close> have been trimmed.\<close>

definition pruned :: "int \<Rightarrow> 'm ListingProxy \<Rightarrow> 'm ListingProxy" where
  "pruned now lp =
     lp\<lparr>childModifications :=
          dropWhile (\<lambda>e. \<not> now < m_expiration (snd e)) (childModifications lp),
        childModificationsIndex :=
          filter (\<lambda>p. fst p \<notin> set (expiredNames now (childModifications lp)))
            (childModificationsIndex lp)\<rparr>"

text \<open>The proxy after the body of \<open>NoteNewObject\<close> has recorded a legal object: the record of
  the same name, if any, has left the list and the index, and the new one is at the back.\<close>

definition noted :: "('m, 'e) env \<Rightarrow> 'm Object \<Rightarrow> 'm ListingProxy \<Rightarrow> 'm ListingProxy" where
  "noted env o' lp =
     (let e = (nextElement lp,
               \<lparr> m_expiration = Time_Add (clock_Now env (clock lp)) ListingProxy_ModificationMemoryTTL,
                 m_name = Name o', m_node = Some (ObjectNode o') \<rparr>)
      in lp\<lparr>clock := clock lp + 1,
            childModifications :=
              filter (\<lambda>x. m_name (snd x) \<noteq> Name o') (childModifications lp) @ [e],
            childModificationsIndex :=
              filter (\<lambda>p. fst p \<noteq> Name o') (childModificationsIndex lp) @ [(Name o', e)],
            nextElement := nextElement lp + 1,
            contents := AList.update (Name o') (ObjectNode o') (contents lp)\<rparr>)"

section \<open>Properties\<close>

subsection \<open>Times\<close>

text \<open>Within the range of \<open>time.Time\<close>, \<open>Add\<close> is the sum; at the last instant of the range it
  returns the instant itself.\<close>

lemma Time_Add_in_range:
  assumes "- Time_maxSec - 1 \<le> (t + d) div 1000000000"
    and "(t + d) div 1000000000 \<le> Time_maxSec"
  shows "Time_Add t d = t + d"
  using assms by (simp add: Time_Add_def Let_def)

lemma Time_Add_last:
  "Time_Add (Time_maxSec * 1000000000 + 999999999) ListingProxy_ModificationMemoryTTL =
     Time_maxSec * 1000000000 + 999999999"
proof -
  have s: "Time_maxSec * 1000000000 + 999999999 + ListingProxy_ModificationMemoryTTL =
           (Time_maxSec + 300) * 1000000000 + 999999999"
    by (simp add: ListingProxy_ModificationMemoryTTL_def algebra_simps)
  have d: "((Time_maxSec + 300) * 1000000000 + 999999999) div 1000000000 = Time_maxSec + 300"
    by simp
  have m: "((Time_maxSec + 300) * 1000000000 + 999999999) mod 1000000000 = 999999999"
    by simp
  show ?thesis unfolding Time_Add_def Let_def s d m by simp
qed

lemma Time_Add_le:
  assumes "- Time_maxSec - 1 \<le> (t + d) div 1000000000"
  shows "Time_Add t d \<le> t + d"
proof -
  have "Time_maxSec * 1000000000 + (t + d) mod 1000000000 \<le> t + d"
    if "Time_maxSec < (t + d) div 1000000000"
  proof -
    have "Time_maxSec * 1000000000 \<le> (t + d) div 1000000000 * 1000000000"
      using that by simp
    moreover have "(t + d) div 1000000000 * 1000000000 + (t + d) mod 1000000000 = t + d"
      by simp
    ultimately show ?thesis by linarith
  qed
  then show ?thesis using assms by (auto simp: Time_Add_def Let_def)
qed

subsection \<open>The name checks\<close>

lemma IndexByte_bounds: "- 1 \<le> IndexByte s c \<and> IndexByte s c < int (length s)"
  by (induction s) (auto simp: Let_def)

lemma IndexByte_nonneg_iff: "0 \<le> IndexByte s c \<longleftrightarrow> c \<in> set s"
  by (induction s) (auto simp: Let_def)

lemma IndexByte_last_iff:
  "s \<noteq> [] \<Longrightarrow> IndexByte s c = int (length s) - 1 \<longleftrightarrow> last s = c \<and> c \<notin> set (butlast s)"
proof (induction s)
  case Nil
  then show ?case by simp
next
  case (Cons x xs)
  show ?case
  proof (cases "xs = []")
    case True
    then show ?thesis by (auto simp: Let_def)
  next
    case False
    with Cons.IH have ih:
      "IndexByte xs c = int (length xs) - 1 \<longleftrightarrow> last xs = c \<and> c \<notin> set (butlast xs)"
      by simp
    from False have len: "0 < length xs" by simp
    show ?thesis
      using False ih len IndexByte_bounds [of xs c] by (auto simp: Let_def)
  qed
qed

lemma drop_same: "drop k n = n \<Longrightarrow> k \<le> length n \<Longrightarrow> k = 0"
proof -
  assume a: "drop k n = n" and b: "k \<le> length n"
  have "length (drop k n) = length n - k" by simp
  with a b show "k = 0" by simp
qed

lemma TrimPrefix_same_iff: "p \<noteq> [] \<Longrightarrow> TrimPrefix n p = n \<longleftrightarrow> \<not> HasPrefix n p"
  by (auto simp: TrimPrefix_def HasPrefix_def dest: drop_same)

text \<open>In a directory other than the root, \<open>checkObjectName\<close> accepts exactly the names of
  the files of the directory, and \<open>checkSubdirName\<close> exactly the names of its immediate
  sub-directories.\<close>

lemma checkObjectName_iff:
  assumes "p \<noteq> []" "last p = CHR ''/''"
  shows "checkObjectName p n = None \<longleftrightarrow>
    HasPrefix n p \<and> n \<noteq> p \<and> \<not> (n \<noteq> [] \<and> last n = CHR ''/'') \<and>
    CHR ''/'' \<notin> set (drop (length p) n)"
proof -
  have e: "n = TrimPrefix n p \<longleftrightarrow> \<not> HasPrefix n p"
    using TrimPrefix_same_iff [OF assms(1), of n] by auto
  have ne: "HasPrefix n p \<Longrightarrow> n \<noteq> []" using assms(1) by (auto simp: HasPrefix_def)
  show ?thesis
    using assms e ne
    by (auto simp: checkObjectName_def isDirName_def Let_def IndexByte_nonneg_iff TrimPrefix_def)
qed

lemma checkSubdirName_iff:
  assumes "p \<noteq> []" "last p = CHR ''/''"
  shows "checkSubdirName p n = None \<longleftrightarrow>
    n \<noteq> [] \<and> last n = CHR ''/'' \<and> n \<noteq> p \<and> HasPrefix n p \<and>
    drop (length p) n \<noteq> [] \<and> last (drop (length p) n) = CHR ''/'' \<and>
    CHR ''/'' \<notin> set (butlast (drop (length p) n))"
proof -
  have e: "n = TrimPrefix n p \<longleftrightarrow> \<not> HasPrefix n p"
    using TrimPrefix_same_iff [OF assms(1), of n] by auto
  have d: "HasPrefix n p \<Longrightarrow> n \<noteq> p \<Longrightarrow> drop (length p) n \<noteq> []"
    by (auto simp: HasPrefix_def)
  have ne: "HasPrefix n p \<Longrightarrow> n \<noteq> []" using assms(1) by (auto simp: HasPrefix_def)
  show ?thesis
  proof (cases "HasPrefix n p \<and> n \<noteq> p")
    case True
    define r where "r = drop (length p) n"
    have dn: "r \<noteq> []" using d True by (simp add: r_def)
    have ln: "last r = last n" using dn by (simp add: last_drop r_def)
    have tr: "TrimPrefix n p = r" using True by (simp add: TrimPrefix_def r_def)
    have nr: "n \<noteq> r" using e tr True by simp
    have "checkSubdirName p n = None \<longleftrightarrow>
            last n = CHR ''/'' \<and> IndexByte r (CHR ''/'') = int (length r) - 1"
      using True ne nr by (auto simp: checkSubdirName_def isDirName_def Let_def tr)
    also have "\<dots> \<longleftrightarrow>
            last n = CHR ''/'' \<and> last r = CHR ''/'' \<and> CHR ''/'' \<notin> set (butlast r)"
      using IndexByte_last_iff [OF dn] by simp
    finally show ?thesis
      using True ne dn ln unfolding r_def by auto
  next
    case False
    then show ?thesis using e
      by (auto simp: checkSubdirName_def isDirName_def Let_def)
  qed
qed

text \<open>In the root directory both checks reject every name: \<open>TrimPrefix\<close> of the empty
  prefix returns the name itself, which the checks take for "not a descendant".\<close>

lemma checkObjectName_root: "checkObjectName [] n \<noteq> None"
  by (simp add: checkObjectName_def TrimPrefix_def HasPrefix_def Let_def)

lemma checkSubdirName_root: "checkSubdirName [] n \<noteq> None"
  by (simp add: checkSubdirName_def TrimPrefix_def HasPrefix_def Let_def)

text \<open>
  Claim C3. For a directory identity \<open>P\<close> (empty or ending with the separator) the file
  name check should accept \<open>N\<close> exactly when \<open>N\<close> starts with \<open>P\<close>, differs from \<open>P\<close>, does
  not end with the separator and has no separator after \<open>P\<close>; the sub-directory check
  exactly when \<open>N\<close> ends with the separator, differs from \<open>P\<close>, starts with \<open>P\<close> and has
  one separator after \<open>P\<close>, at the end; in particular for the root identity. At the root
  identity the code does otherwise: \<open>taco\<close> and \<open>burrito/\<close> satisfy the two conditions
  and both checks reject them.
\<close>

theorem root_names_rejected:
  "isDirName '''' \<and>
   HasPrefix ''taco'' '''' \<and> ''taco'' \<noteq> '''' \<and> last ''taco'' \<noteq> CHR ''/'' \<and>
   CHR ''/'' \<notin> set (drop (length '''') ''taco'') \<and>
   checkObjectName '''' ''taco'' = Some NotADescendant \<and>
   HasPrefix ''burrito/'' '''' \<and> ''burrito/'' \<noteq> '''' \<and> last ''burrito/'' = CHR ''/'' \<and>
   CHR ''/'' \<notin> set (butlast (drop (length '''') ''burrito/'')) \<and>
   checkSubdirName '''' ''burrito/'' = Some NotADescendant"
  by (simp add: checkObjectName_def checkSubdirName_def TrimPrefix_def HasPrefix_def
      Let_def isDirName_def)

lemma journalOk_index_lookup:
  assumes "journalOk lp"
  shows "map_of (childModificationsIndex lp) n = Some e \<longleftrightarrow>
         e \<in> set (childModifications lp) \<and> m_name (snd e) = n"
proof -
  have d: "distinct (map fst (childModificationsIndex lp))"
    and s: "set (childModificationsIndex lp) =
            set (map (\<lambda>e. (m_name (snd e), e)) (childModifications lp))"
    using assms by (auto simp: journalOk_def)
  have "map_of (childModificationsIndex lp) n = Some e \<longleftrightarrow> (n, e) \<in> set (childModificationsIndex lp)"
    using d by (auto dest: map_of_SomeD intro: map_of_is_SomeI)
  also have "\<dots> \<longleftrightarrow> e \<in> set (childModifications lp) \<and> m_name (snd e) = n"
    unfolding s by auto
  finally show ?thesis .
qed

lemma journalOk_index_None:
  assumes "journalOk lp"
  shows "map_of (childModificationsIndex lp) n = None \<longleftrightarrow> n \<notin> set (names_of (childModifications lp))"
proof -
  have s: "set (childModificationsIndex lp) =
            set (map (\<lambda>e. (m_name (snd e), e)) (childModifications lp))"
    using assms by (auto simp: journalOk_def)
  have "map_of (childModificationsIndex lp) n = None \<longleftrightarrow> n \<notin> fst ` set (childModificationsIndex lp)"
    by (simp add: map_of_eq_None_iff)
  also have "\<dots> \<longleftrightarrow> n \<notin> set (names_of (childModifications lp))"
    unfolding s by (force simp: names_of_def)
  finally show ?thesis .
qed

text \<open>Dropping the elements with names in S from list and index keeps them in agreement.\<close>

lemma journalOk_filter:
  assumes "journalOk lp"
  shows "journalOk (lp\<lparr>childModifications := filter (\<lambda>e. m_name (snd e) \<notin> S) (childModifications lp),
                         childModificationsIndex := filter (\<lambda>p. fst p \<notin> S) (childModificationsIndex lp)\<rparr>)"
proof -
  have s: "set (childModificationsIndex lp) =
            set (map (\<lambda>e. (m_name (snd e), e)) (childModifications lp))"
    using assms by (auto simp: journalOk_def)
  have "set (filter (\<lambda>p. fst p \<notin> S) (childModificationsIndex lp)) =
        set (map (\<lambda>e. (m_name (snd e), e)) (filter (\<lambda>e. m_name (snd e) \<notin> S) (childModifications lp)))"
    using s by auto
  then show ?thesis
    using assms
    by (simp add: journalOk_def names_of_def distinct_map_filter list_all_iff)
qed

lemma Remove_member:
  assumes "distinct (map fst l)" "distinct (names_of l)" "e \<in> set l"
  shows "Remove e l = filter (\<lambda>x. m_name (snd x) \<noteq> m_name (snd e)) l"
proof -
  have "\<And>x. x \<in> set l \<Longrightarrow> (fst x \<noteq> fst e) = (m_name (snd x) \<noteq> m_name (snd e))"
  proof -
    fix x assume x: "x \<in> set l"
    have a: "fst x = fst e \<Longrightarrow> x = e"
      using assms(1,3) x by (meson distinct_map inj_onD)
    have b: "m_name (snd x) = m_name (snd e) \<Longrightarrow> x = e"
      using assms(2,3) x unfolding names_of_def by (meson distinct_map inj_onD)
    show "(fst x \<noteq> fst e) = (m_name (snd x) \<noteq> m_name (snd e))"
      using a b by auto
  qed
  then show ?thesis unfolding Remove_def by (auto intro: filter_cong)
qed

lemma filter_prefix_names:
  assumes "distinct (names_of (xs @ ys))"
  shows "filter (\<lambda>e. m_name (snd e) \<notin> set (names_of xs)) (xs @ ys) = ys"
proof -
  have a: "filter (\<lambda>e. m_name (snd e) \<notin> set (names_of xs)) xs = []"
    by (auto simp: filter_empty_conv names_of_def)
  have b: "filter (\<lambda>e. m_name (snd e) \<notin> set (names_of xs)) ys = ys"
    using assms by (auto simp: filter_id_conv names_of_def)
  show ?thesis using a b by simp
qed

lemma removeNames_prefix:
  assumes "journalOk lp" "childModifications lp = xs @ ys"
  shows "removeNames (names_of xs) lp =
         Some (lp\<lparr>childModifications := ys,
                  childModificationsIndex :=
                    filter (\<lambda>p. fst p \<notin> set (names_of xs)) (childModificationsIndex lp)\<rparr>)"
  using assms
proof (induction xs arbitrary: lp)
  case Nil
  then show ?case by (simp add: names_of_def)
next
  case (Cons x xs)
  let ?n = "m_name (snd x)"
  have xin: "x \<in> set (childModifications lp)" using Cons.prems by simp
  have lk: "map_of (childModificationsIndex lp) ?n = Some x"
    using journalOk_index_lookup [OF Cons.prems(1)] xin by simp
  have d1: "distinct (map fst (childModifications lp))"
    and d2: "distinct (names_of (childModifications lp))"
    using Cons.prems(1) by (auto simp: journalOk_def)
  have rm: "Remove x (childModifications lp) =
            filter (\<lambda>e. m_name (snd e) \<notin> {?n}) (childModifications lp)"
    using Remove_member [OF d1 d2 xin] by simp
  have rm2: "Remove x (childModifications lp) = xs @ ys"
    using filter_prefix_names [of "[x]" "xs @ ys"] d2 Cons.prems(2) rm
    by (simp add: names_of_def)
  define lp1 where "lp1 = lp\<lparr>childModifications := Remove x (childModifications lp),
                childModificationsIndex := AList.delete ?n (childModificationsIndex lp)\<rparr>"
  have dl: "AList.delete ?n (childModificationsIndex lp) =
            filter (\<lambda>p. fst p \<notin> {?n}) (childModificationsIndex lp)"
    by (auto simp: AList.delete_eq intro!: filter_cong)
  have ok1: "journalOk lp1"
    unfolding lp1_def rm dl by (rule journalOk_filter [OF Cons.prems(1)])
  have l1: "childModifications lp1 = xs @ ys" by (simp add: lp1_def rm2)
  have "removeNames (names_of (x # xs)) lp = removeNames (names_of xs) lp1"
    using lk by (simp add: names_of_def lp1_def)
  also have "\<dots> = Some (lp1\<lparr>childModifications := ys,
                  childModificationsIndex :=
                    filter (\<lambda>p. fst p \<notin> set (names_of xs)) (childModificationsIndex lp1)\<rparr>)"
    by (rule Cons.IH [OF ok1 l1])
  also have "\<dots> = Some (lp\<lparr>childModifications := ys,
                  childModificationsIndex :=
                    filter (\<lambda>p. fst p \<notin> set (names_of (x # xs))) (childModificationsIndex lp)\<rparr>)"
    by (auto simp: lp1_def dl names_of_def intro: filter_cong)
  finally show ?case .
qed

subsection \<open>Trimming the expired modifications\<close>

lemma cleanChildModifications_pruned:
  assumes "journalOk lp"
  shows "cleanChildModifications env lp =
         Some (pruned (clock_Now env (clock lp)) (lp\<lparr>clock := clock lp + 1\<rparr>))"
proof -
  let ?now = "clock_Now env (clock lp)"
  let ?P = "\<lambda>e :: 'a Element. \<not> ?now < m_expiration (snd e)"
  let ?lp1 = "lp\<lparr>clock := clock lp + 1\<rparr>"
  have ok1: "journalOk ?lp1" using assms by (simp add: journalOk_def)
  have split: "childModifications ?lp1 =
               takeWhile ?P (childModifications lp) @ dropWhile ?P (childModifications lp)"
    by simp
  have "removeNames (names_of (takeWhile ?P (childModifications lp))) ?lp1 =
        Some (?lp1\<lparr>childModifications := dropWhile ?P (childModifications lp),
                 childModificationsIndex :=
                   filter (\<lambda>p. fst p \<notin> set (names_of (takeWhile ?P (childModifications lp))))
                     (childModificationsIndex ?lp1)\<rparr>)"
    by (rule removeNames_prefix [OF ok1 split])
  then show ?thesis
    by (simp add: cleanChildModifications_def Let_def expiredNames_def names_of_def pruned_def)
qed

lemma pruned_fields [simp]:
  "name (pruned now lp) = name lp"
  "contents (pruned now lp) = contents lp"
  "contentsExpiration (pruned now lp) = contentsExpiration lp"
  "clock (pruned now lp) = clock lp"
  "bucket (pruned now lp) = bucket lp"
  "nextElement (pruned now lp) = nextElement lp"
  "childModifications (pruned now lp) =
     dropWhile (\<lambda>e. \<not> now < m_expiration (snd e)) (childModifications lp)"
  by (simp_all add: pruned_def)

lemma journalOk_pruned:
  assumes "journalOk lp"
  shows "journalOk (pruned now lp)"
proof -
  let ?P = "\<lambda>e :: 'a Element. \<not> now < m_expiration (snd e)"
  let ?S = "set (expiredNames now (childModifications lp))"
  have d: "distinct (names_of (takeWhile ?P (childModifications lp) @ dropWhile ?P (childModifications lp)))"
    using assms by (simp add: journalOk_def)
  have "filter (\<lambda>e. m_name (snd e) \<notin> ?S) (childModifications lp) =
        filter (\<lambda>e. m_name (snd e) \<notin> set (names_of (takeWhile ?P (childModifications lp))))
          (takeWhile ?P (childModifications lp) @ dropWhile ?P (childModifications lp))"
    by (simp add: expiredNames_def names_of_def)
  also have "\<dots> = dropWhile ?P (childModifications lp)"
    by (rule filter_prefix_names [OF d])
  finally have e: "dropWhile ?P (childModifications lp) =
        filter (\<lambda>e. m_name (snd e) \<notin> ?S) (childModifications lp)" by simp
  show ?thesis
    unfolding pruned_def e by (rule journalOk_filter [OF assms])
qed

lemma sound_pruned:
  assumes "sound lp"
  shows "sound (pruned now lp)"
proof -
  have "journalOk lp" using assms by (simp add: sound_def)
  then have j: "journalOk (pruned now lp)" by (rule journalOk_pruned)
  have "set (dropWhile (\<lambda>e. \<not> now < m_expiration (snd e)) (childModifications lp))
        \<subseteq> set (childModifications lp)"
    by (rule set_dropWhileD [THEN subsetI])
  then have r: "list_all (recordOk (name lp) (contents lp))
           (dropWhile (\<lambda>e. \<not> now < m_expiration (snd e)) (childModifications lp))"
    using assms by (auto simp: sound_def list_all_iff)
  show ?thesis using assms j r by (simp add: sound_def)
qed

lemma sound_clock [simp]: "sound (lp\<lparr>clock := k\<rparr>) = sound lp"
  by (simp add: sound_def journalOk_def)

lemma sound_bucket [simp]: "sound (lp\<lparr>bucket := k\<rparr>) = sound lp"
  by (simp add: sound_def journalOk_def)

lemma sound_contentsExpiration [simp]: "sound (lp\<lparr>contentsExpiration := k\<rparr>) = sound lp"
  by (simp add: sound_def journalOk_def)

lemma cleanChildModifications_sound:
  assumes "sound lp"
  shows "\<exists>lp'. cleanChildModifications env lp = Some lp' \<and> sound lp'"
proof -
  have j: "journalOk lp" using assms by (simp add: sound_def)
  show ?thesis
    using cleanChildModifications_pruned [OF j, of env] sound_pruned [of "lp\<lparr>clock := clock lp + 1\<rparr>"] assms
    by simp
qed

subsection \<open>Noting a new object\<close>

lemma update_absent: "k \<notin> fst ` set al \<Longrightarrow> AList.update k v al = al @ [(k, v)]"
  by (induction al) auto

lemma set_update_subset: "set (AList.update k v al) \<subseteq> insert (k, v) (set al)"
  by (induction al) auto

lemma delete_filter: "AList.delete n al = filter (\<lambda>p. fst p \<noteq> n) al"
  by (auto simp: AList.delete_eq intro!: filter_cong)

lemma supersede:
  assumes "journalOk lp"
  shows "(case map_of (childModificationsIndex lp) n of
            Some e \<Rightarrow>
              lp\<lparr>childModifications := Remove e (childModifications lp),
                 childModificationsIndex := AList.delete n (childModificationsIndex lp)\<rparr>
          | None \<Rightarrow> lp) =
         lp\<lparr>childModifications := filter (\<lambda>x. m_name (snd x) \<noteq> n) (childModifications lp),
            childModificationsIndex := filter (\<lambda>p. fst p \<noteq> n) (childModificationsIndex lp)\<rparr>"
proof (cases "map_of (childModificationsIndex lp) n")
  case None
  then have a: "n \<notin> set (names_of (childModifications lp))"
    using journalOk_index_None [OF assms] by simp
  have b: "n \<notin> fst ` set (childModificationsIndex lp)"
    using None by (simp add: map_of_eq_None_iff)
  have f1: "filter (\<lambda>x. m_name (snd x) \<noteq> n) (childModifications lp) = childModifications lp"
    using a by (auto simp: filter_id_conv names_of_def)
  have f2: "filter (\<lambda>p. fst p \<noteq> n) (childModificationsIndex lp) = childModificationsIndex lp"
    using b by (auto simp: filter_id_conv)
  show ?thesis using None unfolding f1 f2 by simp
next
  case (Some e)
  then have ein: "e \<in> set (childModifications lp)" and en: "m_name (snd e) = n"
    using journalOk_index_lookup [OF assms] by auto
  have d1: "distinct (map fst (childModifications lp))"
    and d2: "distinct (names_of (childModifications lp))"
    using assms by (auto simp: journalOk_def)
  have rm: "Remove e (childModifications lp) =
            filter (\<lambda>x. m_name (snd x) \<noteq> n) (childModifications lp)"
    using Remove_member [OF d1 d2 ein] en by simp
  show ?thesis by (simp only: Some option.case rm delete_filter)
qed

lemma NoteNewObject_body_noted:
  assumes "journalOk lp" "checkObjectName (name lp) (Name o') = None"
  shows "NoteNewObject_body env o' lp = (noted env o' lp, None)"
proof -
  have k: "Name o' \<notin> fst ` set (filter (\<lambda>p. fst p \<noteq> Name o') (childModificationsIndex lp))"
    by auto
  show ?thesis
    using assms(2)
    unfolding NoteNewObject_body_def Let_def supersede [OF assms(1)]
    by (simp add: update_absent [OF k] noted_def Let_def playBackModification_def)
qed

lemma NoteNewObject_body_rejected:
  assumes "checkObjectName (name lp) (Name o') = Some err"
  shows "NoteNewObject_body env o' lp = (lp, Some (IllegalObjectName err (Name o')))"
  using assms by (simp add: NoteNewObject_body_def)

lemma noted_fields [simp]:
  "name (noted env o' lp) = name lp"
  "contentsExpiration (noted env o' lp) = contentsExpiration lp"
  "clock (noted env o' lp) = clock lp + 1"
  "bucket (noted env o' lp) = bucket lp"
  "nextElement (noted env o' lp) = nextElement lp + 1"
  "contents (noted env o' lp) = AList.update (Name o') (ObjectNode o') (contents lp)"
  by (simp_all add: noted_def Let_def)

lemma journalOk_noted:
  assumes "journalOk lp"
  shows "journalOk (noted env o' lp)"
proof -
  define S where "S = {Name o'}"
  define lpf where "lpf = lp\<lparr>childModifications := filter (\<lambda>e. m_name (snd e) \<notin> S) (childModifications lp),
                         childModificationsIndex := filter (\<lambda>p. fst p \<notin> S) (childModificationsIndex lp)\<rparr>"
  have j: "journalOk lpf" unfolding lpf_def by (rule journalOk_filter [OF assms])
  have nn: "Name o' \<notin> set (names_of (childModifications lpf))"
    by (auto simp: lpf_def names_of_def S_def)
  have ni: "Name o' \<notin> fst ` set (childModificationsIndex lpf)"
    by (auto simp: lpf_def S_def)
  have na: "nextElement lp \<notin> fst ` set (childModifications lpf)"
  proof -
    have "\<forall>e\<in>set (childModifications lpf). fst e < nextElement lpf"
      using j by (simp add: journalOk_def list_all_iff)
    then have "\<forall>e\<in>set (childModifications lpf). fst e \<noteq> nextElement lp"
      by (auto simp: lpf_def)
    then show ?thesis by force
  qed
  show ?thesis
    using j nn ni na
    by (auto simp: journalOk_def noted_def Let_def names_of_def list_all_iff lpf_def S_def)
qed

lemma checkObjectName_strict:
  assumes "isDirName p" "checkObjectName p n = None"
  shows "HasPrefix n p \<and> n \<noteq> p"
proof (cases "p = []")
  case True
  then show ?thesis using assms(2) checkObjectName_root [of n] by simp
next
  case False
  then have "last p = CHR ''/''" using assms(1) by (simp add: isDirName_def)
  then show ?thesis using checkObjectName_iff [OF False, of n] assms(2) by simp
qed

lemma sound_noted:
  assumes "sound lp" "checkObjectName (name lp) (Name o') = None"
  shows "sound (noted env o' lp)"
proof -
  have j: "journalOk (noted env o' lp)"
    using assms(1) by (simp add: sound_def journalOk_noted)
  have d: "distinct (map fst (AList.update (Name o') (ObjectNode o') (contents lp)))"
    using assms(1) by (simp add: sound_def distinct_update)
  have dir: "isDirName (name lp)" using assms(1) by (simp add: sound_def)
  have new: "contentsEntryOk (name lp) (Name o', ObjectNode o')"
    using checkObjectName_strict [OF dir assms(2)] assms(2) by (simp add: contentsEntryOk_def)
  have "set (AList.update (Name o') (ObjectNode o') (contents lp))
          \<subseteq> insert (Name o', ObjectNode o') (set (contents lp))"
    by (rule set_update_subset)
  then have c: "list_all (contentsEntryOk (name lp))
                  (AList.update (Name o') (ObjectNode o') (contents lp))"
    using assms(1) new by (auto simp: sound_def list_all_iff)
  have old: "\<And>e. e \<in> set (childModifications lp) \<Longrightarrow> m_name (snd e) \<noteq> Name o' \<Longrightarrow>
               recordOk (name lp) (AList.update (Name o') (ObjectNode o') (contents lp)) e"
  proof -
    fix e assume e: "e \<in> set (childModifications lp)" and ne: "m_name (snd e) \<noteq> Name o'"
    have "recordOk (name lp) (contents lp) e"
      using assms(1) e by (auto simp: sound_def list_all_iff)
    then show "recordOk (name lp) (AList.update (Name o') (ObjectNode o') (contents lp)) e"
      using ne by (auto simp: recordOk_def update_conv' split: option.splits node.splits)
  qed
  have r: "list_all (recordOk (name lp) (AList.update (Name o') (ObjectNode o') (contents lp)))
             (childModifications (noted env o' lp))"
    using old assms(2)
    by (auto simp: noted_def Let_def list_all_iff recordOk_def update_conv')
  show ?thesis using dir d c j r by (simp add: sound_def)
qed

lemma NoteNewObject_sound:
  assumes "sound lp"
  shows "\<exists>lp' err. NoteNewObject env o' lp = Some (lp', err) \<and> sound lp'"
proof (cases "checkObjectName (name lp) (Name o')")
  case None
  have j: "journalOk lp" using assms by (simp add: sound_def)
  obtain lp' where "cleanChildModifications env (noted env o' lp) = Some lp'" "sound lp'"
    using cleanChildModifications_sound [OF sound_noted [OF assms None]] by blast
  then show ?thesis
    by (simp add: NoteNewObject_def NoteNewObject_body_noted [OF j None])
next
  case (Some err)
  obtain lp' where "cleanChildModifications env lp = Some lp'" "sound lp'"
    using cleanChildModifications_sound [OF assms] by blast
  then show ?thesis
    by (simp add: NoteNewObject_def NoteNewObject_body_rejected [OF Some])
qed

lemma NoteNewSubdirectory_sound:
  assumes "sound lp"
  shows "\<exists>lp' err. NoteNewSubdirectory env n lp = Some (lp', err) \<and> sound lp'"
proof -
  obtain lp' where "cleanChildModifications env lp = Some lp'" "sound lp'"
    using cleanChildModifications_sound [OF assms] by blast
  then show ?thesis by (simp add: NoteNewSubdirectory_def Let_def)
qed

lemma NoteRemoval_sound:
  assumes "sound lp"
  shows "\<exists>lp' err. NoteRemoval env n lp = Some (lp', err) \<and> sound lp'"
proof -
  obtain lp' where "cleanChildModifications env lp = Some lp'" "sound lp'"
    using cleanChildModifications_sound [OF assms] by blast
  then show ?thesis by (simp add: NoteRemoval_def)
qed

subsection \<open>Refreshing the contents\<close>

lemma checkSubdirName_strict:
  assumes "isDirName p" "checkSubdirName p n = None"
  shows "HasPrefix n p \<and> n \<noteq> p"
proof (cases "p = []")
  case True
  then show ?thesis using assms(2) checkSubdirName_root [of n] by simp
next
  case False
  then have "last p = CHR ''/''" using assms(1) by (simp add: isDirName_def)
  then show ?thesis using checkSubdirName_iff [OF False, of n] assms(2) by simp
qed

lemma entries_update:
  assumes "distinct (map fst c)" "list_all (contentsEntryOk p) c" "contentsEntryOk p (k, v)"
  shows "distinct (map fst (AList.update k v c)) \<and>
         list_all (contentsEntryOk p) (AList.update k v c)"
proof -
  have "set (AList.update k v c) \<subseteq> insert (k, v) (set c)" by (rule set_update_subset)
  then have "list_all (contentsEntryOk p) (AList.update k v c)"
    using assms(2,3) by (auto simp: list_all_iff)
  then show ?thesis using assms(1) by (simp add: distinct_update)
qed

lemma processObjects_entries:
  assumes "isDirName p" "processObjects p objs c = (Inr c' :: 'e error + (string \<times> 'm node) list)"
    "distinct (map fst c)" "list_all (contentsEntryOk p) c"
  shows "distinct (map fst c') \<and> list_all (contentsEntryOk p) c'"
  using assms(2-)
proof (induction objs arbitrary: c)
  case Nil
  then show ?case by simp
next
  case (Cons o' os)
  show ?case
  proof (cases "Name o' = p")
    case True
    then show ?thesis using Cons by simp
  next
    case False
    then have ok: "checkObjectName p (Name o') = None"
      and rest: "processObjects p os (AList.update (Name o') (ObjectNode o') c) =
                 (Inr c' :: 'e error + (string \<times> 'm node) list)"
      using Cons.prems(1) by (auto split: option.splits)
    have "contentsEntryOk p (Name o', ObjectNode o')"
      using checkObjectName_strict [OF assms(1) ok] ok by (simp add: contentsEntryOk_def)
    then have "distinct (map fst (AList.update (Name o') (ObjectNode o') c)) \<and>
               list_all (contentsEntryOk p) (AList.update (Name o') (ObjectNode o') c)"
      using entries_update Cons.prems(2,3) by blast
    then show ?thesis using Cons.IH [OF rest] by simp
  qed
qed

lemma processSubdirs_entries:
  assumes "processSubdirs p ds c = (Inr c' :: 'e error + (string \<times> 'm node) list)"
    "distinct (map fst c)" "list_all (contentsEntryOk p) c"
  shows "distinct (map fst c') \<and> list_all (contentsEntryOk p) c'"
  using assms
proof (induction ds arbitrary: c)
  case Nil
  then show ?case by simp
next
  case (Cons d ds)
  have ok: "checkSubdirName p d = None" and st: "HasPrefix d p \<and> d \<noteq> p"
    and rest: "processSubdirs p ds (AList.update d (SubdirNode d) c) =
               (Inr c' :: 'e error + (string \<times> 'm node) list)"
    using Cons.prems(1) by (auto split: option.splits if_splits)
  have "contentsEntryOk p (d, SubdirNode d)"
    using ok st by (simp add: contentsEntryOk_def)
  then have "distinct (map fst (AList.update d (SubdirNode d) c)) \<and>
             list_all (contentsEntryOk p) (AList.update d (SubdirNode d) c)"
    using entries_update Cons.prems(2,3) by blast
  then show ?case using Cons.IH [OF rest] by simp
qed

lemma fold_playBackModification:
  "fold playBackModification ms lp = lp\<lparr>contents := playedBack ms (contents lp)\<rparr>"
  by (induction ms arbitrary: lp)
     (auto simp: playedBack_def playBackModification_def split: option.splits)

lemma playedBack_snoc:
  "playedBack (ms @ [m]) c =
     (case m_node m of
        None \<Rightarrow> AList.delete (m_name m) (playedBack ms c)
      | Some n \<Rightarrow> AList.update (m_name m) n (playedBack ms c))"
  by (cases "m_node m") (simp_all add: playedBack_def)

lemma recordOk_update:
  assumes "recordOk p c e" "m_name (snd e) \<noteq> k"
  shows "recordOk p (AList.update k v c) e"
  using assms by (auto simp: recordOk_def update_conv' split: option.splits node.splits)

lemma playedBack_sound:
  assumes "isDirName p" "distinct (map fst c)" "list_all (contentsEntryOk p) c"
  shows "distinct (names_of l) \<Longrightarrow> list_all (recordOk p c0) l \<Longrightarrow>
         distinct (map fst (playedBack (map snd l) c)) \<and>
         list_all (contentsEntryOk p) (playedBack (map snd l) c) \<and>
         list_all (recordOk p (playedBack (map snd l) c)) l"
proof (induction l rule: rev_induct)
  case Nil
  then show ?case using assms by (simp add: playedBack_def)
next
  case (snoc e l)
  let ?c = "playedBack (map snd l) c"
  have ih: "distinct (map fst ?c)" "list_all (contentsEntryOk p) ?c" "list_all (recordOk p ?c) l"
    using snoc by (simp_all add: names_of_def)
  have fresh: "\<forall>x\<in>set l. m_name (snd x) \<noteq> m_name (snd e)"
  proof
    have a: "m_name (snd e) \<notin> set (names_of l)"
      using snoc.prems(1) by (simp add: names_of_def)
    fix x assume "x \<in> set l"
    then have "m_name (snd x) \<in> set (names_of l)" by (simp add: names_of_def)
    with a show "m_name (snd x) \<noteq> m_name (snd e)" by metis
  qed
  have "recordOk p c0 e" using snoc.prems(2) by simp
  then obtain o' where o: "m_node (snd e) = Some (ObjectNode o')" "m_name (snd e) = Name o'"
      "checkObjectName p (Name o') = None"
    by (auto simp: recordOk_def split: option.splits node.splits)
  have pb: "playedBack (map snd (l @ [e])) c = AList.update (Name o') (ObjectNode o') ?c"
    using o by (simp add: playedBack_snoc)
  have "contentsEntryOk p (Name o', ObjectNode o')"
    using checkObjectName_strict [OF assms(1) o(3)] o(3) by (simp add: contentsEntryOk_def)
  then have a: "distinct (map fst (AList.update (Name o') (ObjectNode o') ?c)) \<and>
                list_all (contentsEntryOk p) (AList.update (Name o') (ObjectNode o') ?c)"
    using entries_update ih(1,2) by blast
  have b: "list_all (recordOk p (AList.update (Name o') (ObjectNode o') ?c)) l"
    using ih(3) fresh o(2) recordOk_update [of p ?c _ "Name o'" "ObjectNode o'"]
    by (auto simp: list_all_iff)
  have c: "recordOk p (AList.update (Name o') (ObjectNode o') ?c) e"
    using o by (simp add: recordOk_def update_conv')
  show ?case unfolding pb using a b c by simp
qed

lemma journalOk_frame [simp]:
  "journalOk (lp\<lparr>contents := c\<rparr>) = journalOk lp"
  "journalOk (lp\<lparr>contentsExpiration := t\<rparr>) = journalOk lp"
  "journalOk (lp\<lparr>clock := k\<rparr>) = journalOk lp"
  "journalOk (lp\<lparr>bucket := k\<rparr>) = journalOk lp"
  by (simp_all add: journalOk_def)

lemma sound_refreshed:
  assumes "sound lp" "distinct (map fst c)" "list_all (contentsEntryOk (name lp)) c"
  shows "sound (fold playBackModification (map snd (childModifications lp))
                  (lp\<lparr>contents := c, contentsExpiration := t, clock := k\<rparr>))"
proof -
  have dir: "isDirName (name lp)" and j: "journalOk lp"
    and d: "distinct (names_of (childModifications lp))"
    and r: "list_all (recordOk (name lp) (contents lp)) (childModifications lp)"
    using assms(1) by (simp_all add: sound_def journalOk_def)
  show ?thesis
    using playedBack_sound [OF dir assms(2,3) d r] dir j
    by (simp add: fold_playBackModification sound_def)
qed

lemma ensureContents_sound:
  fixes env :: "('m, 'e) env"
  assumes "sound lp"
  shows "\<exists>lp' err. ensureContents env lp = Some (lp', err) \<and> sound lp'"
proof (cases "clock_Now env (clock lp) < contentsExpiration lp")
  case True
  then show ?thesis using assms by (simp add: ensureContents_def Let_def)
next
  case stale: False
  define lp2 where "lp2 = lp\<lparr>clock := clock lp + 1, bucket := bucket lp + 1\<rparr>"
  have s2: "sound lp2" using assms by (simp add: lp2_def)
  have dir: "isDirName (name lp)" using assms by (simp add: sound_def)
  show ?thesis
  proof (cases "gcsutil_List env (bucket lp)")
    case (Inl err)
    then show ?thesis using stale assms by (simp add: ensureContents_def Let_def)
  next
    case (Inr r)
    obtain objects subdirs where r: "r = (objects, subdirs)" by (cases r)
    show ?thesis
    proof (cases "processObjects (name lp) objects [] :: 'e error + (string \<times> 'm node) list")
      case (Inl err)
      then show ?thesis using stale assms Inr r by (simp add: ensureContents_def Let_def)
    next
      case c1: (Inr c1)
      have e1: "distinct (map fst c1) \<and> list_all (contentsEntryOk (name lp)) c1"
        using processObjects_entries [OF dir c1] by simp
      show ?thesis
      proof (cases "processSubdirs (name lp) subdirs c1 :: 'e error + (string \<times> 'm node) list")
        case (Inl err)
        then show ?thesis using stale assms Inr r c1 by (simp add: ensureContents_def Let_def)
      next
        case c2: (Inr c2)
        have e2: "distinct (map fst c2)" "list_all (contentsEntryOk (name lp)) c2"
          using processSubdirs_entries [OF c2] e1 by simp_all
        obtain lp3 where l3: "cleanChildModifications env lp2 = Some lp3" and s3: "sound lp3"
          using cleanChildModifications_sound [OF s2] by blast
        have n3: "name lp3 = name lp"
          using l3 cleanChildModifications_pruned [of lp2 env] s2
          by (auto simp: sound_def lp2_def)
        have "sound (fold playBackModification (map snd (childModifications lp3))
                (lp3\<lparr>contents := c2,
                     contentsExpiration := Time_Add (clock_Now env (clock lp3)) ListingProxy_ListingCacheTTL,
                     clock := clock lp3 + 1\<rparr>))"
          using sound_refreshed [OF s3] e2 n3 by simp
        then show ?thesis
          using stale Inr r c1 c2 l3
          by (simp add: ensureContents_def Let_def lp2_def)
      qed
    qed
  qed
qed

lemma ListObjects_sound:
  assumes "sound lp"
  shows "\<exists>lp' r. ListObjects env lp = Some (lp', r) \<and> sound lp'"
proof -
  obtain lp' err where "ensureContents env lp = Some (lp', err)" "sound lp'"
    using ensureContents_sound [OF assms] by blast
  then show ?thesis by (cases err) (simp_all add: ListObjects_def)
qed

subsection \<open>The invariants hold between calls\<close>

lemma distinct_noAdjacentDuplicate: "distinct xs \<Longrightarrow> noAdjacentDuplicate xs"
  by (induction xs rule: noAdjacentDuplicate.induct) auto

lemma sort_eq_of_set_eq:
  fixes xs ys :: "string list"
  assumes "distinct xs" "distinct ys" "set xs = set ys"
  shows "sort xs = sort ys"
  by (rule sorted_distinct_set_unique) (simp_all add: assms)

lemma recordOk_modificationOk: "recordOk p c e \<Longrightarrow> modificationOk c e"
  by (auto simp: recordOk_def modificationOk_def Let_def split: option.splits node.splits)

lemma sound_CheckInvariants:
  assumes "sound lp"
  shows "CheckInvariants lp"
proof -
  have dir: "isDirName (name lp)"
    and c: "list_all (contentsEntryOk (name lp)) (contents lp)"
    and j: "journalOk lp"
    and r: "list_all (recordOk (name lp) (contents lp)) (childModifications lp)"
    using assms by (simp_all add: sound_def)
  have m: "list_all (modificationOk (contents lp)) (childModifications lp)"
    using r by (auto simp: list_all_iff intro: recordOk_modificationOk)
  have d1: "distinct (map (\<lambda>e. m_name (snd e)) (childModifications lp))"
    and d2: "distinct (map fst (childModificationsIndex lp))"
    and s: "set (childModificationsIndex lp) =
            set (map (\<lambda>e. (m_name (snd e), e)) (childModifications lp))"
    using j by (simp_all add: journalOk_def names_of_def)
  have n: "noAdjacentDuplicate (sort (map (\<lambda>e. m_name (snd e)) (childModifications lp)))"
    using d1 by (simp add: distinct_noAdjacentDuplicate)
  have i: "list_all (\<lambda>(n, e). m_name (snd e) = n) (childModificationsIndex lp)"
    unfolding list_all_iff s by auto
  have "set (map (\<lambda>e. m_name (snd e)) (childModifications lp)) =
        set (map fst (childModificationsIndex lp))"
    unfolding set_map s by force
  then have e: "sort (map (\<lambda>e. m_name (snd e)) (childModifications lp)) =
        sort (map fst (childModificationsIndex lp))"
    by (rule sort_eq_of_set_eq [OF d1 d2])
  show ?thesis using dir c m n i e by (simp add: CheckInvariants_def)
qed

lemma NewListingProxy_sound:
  assumes "NewListingProxy b c dir = Inr lp"
  shows "sound lp"
  using assms
  by (auto simp: NewListingProxy_def sound_def journalOk_def names_of_def split: if_splits)

lemma perform_sound:
  assumes "sound lp"
  shows "\<exists>lp'. perform env c lp = Some lp' \<and> sound lp'"
proof (cases c)
  case (CallNoteNewObject o')
  then show ?thesis using NoteNewObject_sound [OF assms, of env o'] by auto
next
  case (CallNoteNewSubdirectory n)
  then show ?thesis using NoteNewSubdirectory_sound [OF assms, of env n] by auto
next
  case (CallNoteRemoval n)
  then show ?thesis using NoteRemoval_sound [OF assms, of env n] by auto
next
  case CallList
  then show ?thesis using ListObjects_sound [OF assms, of env] by auto
qed

lemma run_sound:
  assumes "sound lp"
  shows "\<exists>lp'. run env cs lp = Some lp' \<and> sound lp'"
  using assms
proof (induction cs arbitrary: lp)
  case Nil
  then show ?case by simp
next
  case (Cons c cs)
  obtain lp1 where "perform env c lp = Some lp1" "sound lp1"
    using perform_sound [OF Cons.prems] by blast
  then show ?case using Cons.IH [of lp1] by simp
qed

text \<open>
  Claim C5. After any sequence of \<open>NoteNewObject\<close>, \<open>NoteNewSubdirectory\<close>, \<open>NoteRemoval\<close> and
  \<open>List\<close> calls on a freshly constructed proxy, whatever the clock and the bucket answer,
  no call panics and \<open>CheckInvariants\<close> runs to its end: every key of the contents is a
  strict direct descendant held under its node's own name, the names of the journal are
  unique, the contents agree with every record, and the index holds the names of the
  journal and no other.
\<close>

theorem invariants_preserved:
  fixes env :: "('m, 'e) env"
  assumes "NewListingProxy b c dir = (Inr lp0 :: 'e error + 'm ListingProxy)"
  shows "\<exists>lp. run env cs lp0 = Some lp \<and> CheckInvariants lp"
proof -
  have "sound lp0" using assms by (rule NewListingProxy_sound)
  then obtain lp where "run env cs lp0 = Some lp" "sound lp"
    using run_sound by blast
  then show ?thesis using sound_CheckInvariants by blast
qed

theorem invariants_preserved_witness:
  "NewListingProxy 0 0 ''a/'' =
     (Inr \<lparr> bucket = 0, clock = 0, name = ''a/'', contents = [],
            contentsExpiration = 0, childModifications = [],
            childModificationsIndex = [], nextElement = 0 \<rparr>
        :: unit error + unit ListingProxy) \<and>
   (\<exists>lp. run \<lparr> clock_Now = (\<lambda>k. 0),
               gcsutil_List = (\<lambda>k. Inr ([\<lparr>Name = ''a/x'', payload = ()\<rparr>], [''a/b/''])) \<rparr>
            [CallList, CallNoteNewObject \<lparr>Name = ''a/y'', payload = ()\<rparr>,
             CallNoteRemoval ''a/x'', CallNoteNewSubdirectory ''a/c/'', CallList]
            \<lparr> bucket = 0, clock = 0, name = ''a/'', contents = [],
              contentsExpiration = 0, childModifications = [],
              childModificationsIndex = [], nextElement = 0 \<rparr> = Some lp \<and>
         CheckInvariants lp)"
  using invariants_preserved
    [of 0 0 "''a/''"
        "\<lparr> bucket = 0, clock = 0, name = ''a/'', contents = [],
           contentsExpiration = 0, childModifications = [],
           childModificationsIndex = [], nextElement = 0 \<rparr>"
        "\<lparr> clock_Now = (\<lambda>k. 0),
           gcsutil_List = (\<lambda>k. Inr ([\<lparr>Name = ''a/x'', payload = ()\<rparr>], [''a/b/''])) \<rparr>"
        "[CallList, CallNoteNewObject \<lparr>Name = ''a/y'', payload = ()\<rparr>,
          CallNoteRemoval ''a/x'', CallNoteNewSubdirectory ''a/c/'', CallList]"]
  by (simp add: NewListingProxy_def isDirName_def)

subsection \<open>Calls that return an error\<close>

lemma run_keeps_sound:
  fixes env :: "('m, 'e) env"
  assumes "NewListingProxy b c dir = (Inr lp0 :: 'e error + 'm ListingProxy)"
    and "run env cs lp0 = Some lp"
  shows "sound lp"
proof -
  have "sound lp0" using assms(1) by (rule NewListingProxy_sound)
  then obtain lp' where "run env cs lp0 = Some lp'" "sound lp'"
    using run_sound by blast
  then show ?thesis using assms(2) by simp
qed

text \<open>
  Claim C10. On a proxy that a program can hold, a \<open>Note*\<close> call that returns an error
  (\<open>NoteNewObject\<close> of an illegal name, every \<open>NoteNewSubdirectory\<close>, every \<open>NoteRemoval\<close>)
  leaves the contents and their expiration as they were and still trims the journal: the
  records at its head that have expired at the clock reading of the call leave the list
  and the index (\<open>pruned\<close>). \<open>NoteNewObject\<close> of a legal name returns no error.
\<close>

theorem error_calls_only_prune:
  fixes env :: "('m, 'e) env"
  assumes "NewListingProxy b c dir = (Inr lp0 :: 'e error + 'm ListingProxy)"
    and "run env cs lp0 = Some lp"
  shows "(case checkObjectName (name lp) (Name o') of
            Some err \<Rightarrow>
              NoteNewObject env o' lp =
                Some (pruned (clock_Now env (clock lp)) (lp\<lparr>clock := clock lp + 1\<rparr>),
                      Some (IllegalObjectName err (Name o')))
          | None \<Rightarrow> (\<exists>lp'. NoteNewObject env o' lp = Some (lp', None))) \<and>
         (\<exists>err. NoteNewSubdirectory env n lp =
                  Some (pruned (clock_Now env (clock lp)) (lp\<lparr>clock := clock lp + 1\<rparr>),
                        Some err)) \<and>
         NoteRemoval env n lp =
           Some (pruned (clock_Now env (clock lp)) (lp\<lparr>clock := clock lp + 1\<rparr>),
                 Some TodoNoteRemoval) \<and>
         contents (pruned (clock_Now env (clock lp)) (lp\<lparr>clock := clock lp + 1\<rparr>)) =
           contents lp \<and>
         contentsExpiration (pruned (clock_Now env (clock lp)) (lp\<lparr>clock := clock lp + 1\<rparr>)) =
           contentsExpiration lp \<and>
         childModifications (pruned (clock_Now env (clock lp)) (lp\<lparr>clock := clock lp + 1\<rparr>)) =
           dropWhile (\<lambda>e. \<not> clock_Now env (clock lp) < m_expiration (snd e))
             (childModifications lp)"
proof -
  have s: "sound lp" using assms by (rule run_keeps_sound)
  then have j: "journalOk lp" by (simp add: sound_def)
  note cl = cleanChildModifications_pruned [OF j, of env]
  have a: "case checkObjectName (name lp) (Name o') of
            Some err \<Rightarrow>
              NoteNewObject env o' lp =
                Some (pruned (clock_Now env (clock lp)) (lp\<lparr>clock := clock lp + 1\<rparr>),
                      Some (IllegalObjectName err (Name o')))
          | None \<Rightarrow> (\<exists>lp'. NoteNewObject env o' lp = Some (lp', None))"
  proof (cases "checkObjectName (name lp) (Name o')")
    case None
    have "journalOk (noted env o' lp)" using j by (rule journalOk_noted)
    then show ?thesis
      using None cleanChildModifications_pruned [of "noted env o' lp" env]
      by (simp add: NoteNewObject_def NoteNewObject_body_noted [OF j None])
  next
    case (Some err)
    then show ?thesis
      by (simp add: NoteNewObject_def NoteNewObject_body_rejected [OF Some] cl)
  qed
  have b: "\<exists>err. NoteNewSubdirectory env n lp =
                  Some (pruned (clock_Now env (clock lp)) (lp\<lparr>clock := clock lp + 1\<rparr>),
                        Some err)"
    by (simp add: NoteNewSubdirectory_def Let_def cl)
  have c: "NoteRemoval env n lp =
           Some (pruned (clock_Now env (clock lp)) (lp\<lparr>clock := clock lp + 1\<rparr>),
                 Some TodoNoteRemoval)"
    by (simp add: NoteRemoval_def cl)
  show ?thesis using a b c by simp
qed

theorem error_calls_only_prune_witness:
  "NewListingProxy 0 0 ''a/'' =
     (Inr \<lparr> bucket = 0, clock = 0, name = ''a/'', contents = [],
            contentsExpiration = 0, childModifications = [],
            childModificationsIndex = [], nextElement = 0 \<rparr>
        :: unit error + unit ListingProxy) \<and>
   run \<lparr> clock_Now = (\<lambda>k. if k < 2 then 0 else 300000000000),
         gcsutil_List = (\<lambda>k. Inl ()) \<rparr>
       [CallNoteNewObject \<lparr>Name = ''a/x'', payload = ()\<rparr>]
       \<lparr> bucket = 0, clock = 0, name = ''a/'', contents = [],
         contentsExpiration = 0, childModifications = [],
         childModificationsIndex = [], nextElement = 0 \<rparr> =
     Some \<lparr> bucket = 0, clock = 2, name = ''a/'',
            contents = [(''a/x'', ObjectNode \<lparr>Name = ''a/x'', payload = ()\<rparr>)],
            contentsExpiration = 0,
            childModifications =
              [(0, \<lparr>m_expiration = 300000000000, m_name = ''a/x'',
                     m_node = Some (ObjectNode \<lparr>Name = ''a/x'', payload = ()\<rparr>)\<rparr>)],
            childModificationsIndex =
              [(''a/x'', 0, \<lparr>m_expiration = 300000000000, m_name = ''a/x'',
                     m_node = Some (ObjectNode \<lparr>Name = ''a/x'', payload = ()\<rparr>)\<rparr>)],
            nextElement = 1 \<rparr> \<and>
   NoteRemoval \<lparr> clock_Now = (\<lambda>k. if k < 2 then 0 else 300000000000),
                 gcsutil_List = (\<lambda>k. Inl ()) \<rparr> ''a/x''
       \<lparr> bucket = 0, clock = 2, name = ''a/'',
         contents = [(''a/x'', ObjectNode \<lparr>Name = ''a/x'', payload = ()\<rparr>)],
         contentsExpiration = 0,
         childModifications =
           [(0, \<lparr>m_expiration = 300000000000, m_name = ''a/x'',
                  m_node = Some (ObjectNode \<lparr>Name = ''a/x'', payload = ()\<rparr>)\<rparr>)],
         childModificationsIndex =
           [(''a/x'', 0, \<lparr>m_expiration = 300000000000, m_name = ''a/x'',
                  m_node = Some (ObjectNode \<lparr>Name = ''a/x'', payload = ()\<rparr>)\<rparr>)],
         nextElement = 1 \<rparr> =
     Some (\<lparr> bucket = 0, clock = 3, name = ''a/'',
             contents = [(''a/x'', ObjectNode \<lparr>Name = ''a/x'', payload = ()\<rparr>)],
             contentsExpiration = 0, childModifications = [],
             childModificationsIndex = [], nextElement = 1 \<rparr>,
           Some TodoNoteRemoval)"
proof -
  let ?env = "\<lparr> clock_Now = (\<lambda>k. if k < 2 then 0 else 300000000000),
                gcsutil_List = (\<lambda>k. Inl ()) \<rparr> :: (unit, unit) env"
  let ?init = "\<lparr> bucket = 0, clock = 0, name = ''a/'', contents = [],
                contentsExpiration = 0, childModifications = [],
                childModificationsIndex = [], nextElement = 0 \<rparr> :: unit ListingProxy"
  let ?st = "\<lparr> bucket = 0, clock = 2, name = ''a/'',
         contents = [(''a/x'', ObjectNode \<lparr>Name = ''a/x'', payload = ()\<rparr>)],
         contentsExpiration = 0,
         childModifications =
           [(0, \<lparr>m_expiration = 300000000000, m_name = ''a/x'',
                  m_node = Some (ObjectNode \<lparr>Name = ''a/x'', payload = ()\<rparr>)\<rparr>)],
         childModificationsIndex =
           [(''a/x'', 0, \<lparr>m_expiration = 300000000000, m_name = ''a/x'',
                  m_node = Some (ObjectNode \<lparr>Name = ''a/x'', payload = ()\<rparr>)\<rparr>)],
         nextElement = 1 \<rparr> :: unit ListingProxy"
  have h1: "NewListingProxy 0 0 ''a/'' = (Inr ?init :: unit error + unit ListingProxy)"
    by (simp add: NewListingProxy_def isDirName_def)
  have h2: "run ?env [CallNoteNewObject \<lparr>Name = ''a/x'', payload = ()\<rparr>] ?init = Some ?st"
    by code_simp
  have "NoteRemoval ?env ''a/x'' ?st =
          Some (pruned (clock_Now ?env (clock ?st)) (?st\<lparr>clock := clock ?st + 1\<rparr>),
                Some TodoNoteRemoval)"
    using error_calls_only_prune [OF h1 h2] by simp
  then have c: "NoteRemoval ?env ''a/x'' ?st =
     Some (\<lparr> bucket = 0, clock = 3, name = ''a/'',
             contents = [(''a/x'', ObjectNode \<lparr>Name = ''a/x'', payload = ()\<rparr>)],
             contentsExpiration = 0, childModifications = [],
             childModificationsIndex = [], nextElement = 1 \<rparr>,
           Some TodoNoteRemoval)"
    by (simp add: pruned_def expiredNames_def)
  show ?thesis by (rule conjI [OF h1 conjI [OF h2 c]])
qed

subsection \<open>The two calls that are not implemented\<close>

text \<open>
  Claim C1. \<open>NoteRemoval\<close> of a legal name should succeed, record the removal and take the
  name out of the contents, so that the next \<open>List\<close> does not return it. The code never
  succeeds: whatever the name, \<open>NoteRemoval\<close> returns an error and records nothing. In the
  directory \<open>a/\<close> with the bucket listing \<open>a/x\<close>, \<open>a/y\<close> and \<open>a/b/\<close>, after a first \<open>List\<close>,
  \<open>NoteRemoval\<close> of the legal name \<open>a/x\<close> returns the error, changes nothing but the
  clock reading, and the next \<open>List\<close>, served from the cache, still returns \<open>a/x\<close>.
\<close>

theorem NoteRemoval_always_fails:
  "NoteRemoval env n lp \<noteq> Some (lp', None) \<and>
   (let x = \<lparr>Name = ''a/x'', payload = ()\<rparr>;
        y = \<lparr>Name = ''a/y'', payload = ()\<rparr>;
        env0 = \<lparr> clock_Now = (\<lambda>k. 0),
                 gcsutil_List = (\<lambda>k. Inr ([x, y], [''a/b/''])) \<rparr> :: (unit, unit) env;
        lp0 = \<lparr> bucket = 0, clock = 0, name = ''a/'', contents = [],
                contentsExpiration = 0, childModifications = [],
                childModificationsIndex = [], nextElement = 0 \<rparr>;
        lp1 = \<lparr> bucket = 1, clock = 3, name = ''a/'',
                contents = [(''a/x'', ObjectNode x), (''a/y'', ObjectNode y),
                            (''a/b/'', SubdirNode ''a/b/'')],
                contentsExpiration = 10000000000, childModifications = [],
                childModificationsIndex = [], nextElement = 0 \<rparr>
    in NewListingProxy 0 0 ''a/'' = (Inr lp0 :: unit error + unit ListingProxy) \<and>
       ListObjects env0 lp0 = Some (lp1, Inr ([x, y], [''a/b/''])) \<and>
       checkObjectName ''a/'' ''a/x'' = None \<and>
       NoteRemoval env0 ''a/x'' lp1 = Some (lp1\<lparr>clock := 4\<rparr>, Some TodoNoteRemoval) \<and>
       ListObjects env0 (lp1\<lparr>clock := 4\<rparr>) =
         Some (lp1\<lparr>clock := 5\<rparr>, Inr ([x, y], [''a/b/''])))"
proof -
  have a: "NoteRemoval env n lp \<noteq> Some (lp', None)"
    by (auto simp: NoteRemoval_def)
  have b: "(let x = \<lparr>Name = ''a/x'', payload = ()\<rparr>;
        y = \<lparr>Name = ''a/y'', payload = ()\<rparr>;
        env0 = \<lparr> clock_Now = (\<lambda>k. 0),
                 gcsutil_List = (\<lambda>k. Inr ([x, y], [''a/b/''])) \<rparr> :: (unit, unit) env;
        lp0 = \<lparr> bucket = 0, clock = 0, name = ''a/'', contents = [],
                contentsExpiration = 0, childModifications = [],
                childModificationsIndex = [], nextElement = 0 \<rparr>;
        lp1 = \<lparr> bucket = 1, clock = 3, name = ''a/'',
                contents = [(''a/x'', ObjectNode x), (''a/y'', ObjectNode y),
                            (''a/b/'', SubdirNode ''a/b/'')],
                contentsExpiration = 10000000000, childModifications = [],
                childModificationsIndex = [], nextElement = 0 \<rparr>
    in NewListingProxy 0 0 ''a/'' = (Inr lp0 :: unit error + unit ListingProxy) \<and>
       ListObjects env0 lp0 = Some (lp1, Inr ([x, y], [''a/b/''])) \<and>
       checkObjectName ''a/'' ''a/x'' = None \<and>
       NoteRemoval env0 ''a/x'' lp1 = Some (lp1\<lparr>clock := 4\<rparr>, Some TodoNoteRemoval) \<and>
       ListObjects env0 (lp1\<lparr>clock := 4\<rparr>) =
         Some (lp1\<lparr>clock := 5\<rparr>, Inr ([x, y], [''a/b/''])))"
    by code_simp
  show ?thesis by (rule conjI [OF a b])
qed

text \<open>
  Claim C2. \<open>NoteNewSubdirectory\<close> of a legal sub-directory name should succeed, record
  the addition and put the sub-directory in the contents, so that the next \<open>List\<close> returns
  it. The code never succeeds: whatever the name, \<open>NoteNewSubdirectory\<close> returns an error
  and records nothing. In the directory \<open>a/\<close> with the bucket listing \<open>a/x\<close>, \<open>a/y\<close> and
  \<open>a/b/\<close>, after a first \<open>List\<close>, \<open>NoteNewSubdirectory\<close> of the legal name \<open>a/c/\<close> returns
  the error, leaves the journal empty and the contents as they were, and the next \<open>List\<close>
  does not return \<open>a/c/\<close>.
\<close>

theorem NoteNewSubdirectory_always_fails:
  "NoteNewSubdirectory env n lp \<noteq> Some (lp', None) \<and>
   (let x = \<lparr>Name = ''a/x'', payload = ()\<rparr>;
        y = \<lparr>Name = ''a/y'', payload = ()\<rparr>;
        env0 = \<lparr> clock_Now = (\<lambda>k. 0),
                 gcsutil_List = (\<lambda>k. Inr ([x, y], [''a/b/''])) \<rparr> :: (unit, unit) env;
        lp0 = \<lparr> bucket = 0, clock = 0, name = ''a/'', contents = [],
                contentsExpiration = 0, childModifications = [],
                childModificationsIndex = [], nextElement = 0 \<rparr>;
        lp1 = \<lparr> bucket = 1, clock = 3, name = ''a/'',
                contents = [(''a/x'', ObjectNode x), (''a/y'', ObjectNode y),
                            (''a/b/'', SubdirNode ''a/b/'')],
                contentsExpiration = 10000000000, childModifications = [],
                childModificationsIndex = [], nextElement = 0 \<rparr>
    in NewListingProxy 0 0 ''a/'' = (Inr lp0 :: unit error + unit ListingProxy) \<and>
       ListObjects env0 lp0 = Some (lp1, Inr ([x, y], [''a/b/''])) \<and>
       checkSubdirName ''a/'' ''a/c/'' = None \<and>
       NoteNewSubdirectory env0 ''a/c/'' lp1 =
         Some (lp1\<lparr>clock := 4\<rparr>, Some TodoNoteNewSubdirectory) \<and>
       ListObjects env0 (lp1\<lparr>clock := 4\<rparr>) =
         Some (lp1\<lparr>clock := 5\<rparr>, Inr ([x, y], [''a/b/''])))"
proof -
  have a: "NoteNewSubdirectory env n lp \<noteq> Some (lp', None)"
    by (auto simp: NoteNewSubdirectory_def Let_def)
  have b: "(let x = \<lparr>Name = ''a/x'', payload = ()\<rparr>;
        y = \<lparr>Name = ''a/y'', payload = ()\<rparr>;
        env0 = \<lparr> clock_Now = (\<lambda>k. 0),
                 gcsutil_List = (\<lambda>k. Inr ([x, y], [''a/b/''])) \<rparr> :: (unit, unit) env;
        lp0 = \<lparr> bucket = 0, clock = 0, name = ''a/'', contents = [],
                contentsExpiration = 0, childModifications = [],
                childModificationsIndex = [], nextElement = 0 \<rparr>;
        lp1 = \<lparr> bucket = 1, clock = 3, name = ''a/'',
                contents = [(''a/x'', ObjectNode x), (''a/y'', ObjectNode y),
                            (''a/b/'', SubdirNode ''a/b/'')],
                contentsExpiration = 10000000000, childModifications = [],
                childModificationsIndex = [], nextElement = 0 \<rparr>
    in NewListingProxy 0 0 ''a/'' = (Inr lp0 :: unit error + unit ListingProxy) \<and>
       ListObjects env0 lp0 = Some (lp1, Inr ([x, y], [''a/b/''])) \<and>
       checkSubdirName ''a/'' ''a/c/'' = None \<and>
       NoteNewSubdirectory env0 ''a/c/'' lp1 =
         Some (lp1\<lparr>clock := 4\<rparr>, Some TodoNoteNewSubdirectory) \<and>
       ListObjects env0 (lp1\<lparr>clock := 4\<rparr>) =
         Some (lp1\<lparr>clock := 5\<rparr>, Inr ([x, y], [''a/b/''])))"
    by code_simp
  show ?thesis by (rule conjI [OF a b])
qed

subsection \<open>What a call leaves alone\<close>

lemma removeNames_frame:
  "removeNames ns lp = Some lp' \<Longrightarrow>
     clock lp' = clock lp \<and> bucket lp' = bucket lp \<and> name lp' = name lp \<and>
     contents lp' = contents lp \<and> contentsExpiration lp' = contentsExpiration lp \<and>
     nextElement lp' = nextElement lp"
proof (induction ns arbitrary: lp)
  case Nil
  then show ?case by simp
next
  case (Cons n ns)
  then show ?case
    by (cases "map_of (childModificationsIndex lp) n") (auto dest!: Cons.IH)
qed

lemma cleanChildModifications_frame:
  assumes "cleanChildModifications env lp = Some lp'"
  shows "clock lp' = clock lp + 1 \<and> bucket lp' = bucket lp \<and> name lp' = name lp \<and>
         contents lp' = contents lp \<and> contentsExpiration lp' = contentsExpiration lp \<and>
         nextElement lp' = nextElement lp"
  using removeNames_frame [OF assms [unfolded cleanChildModifications_def Let_def]] by simp

lemma ensureContents_fresh:
  assumes "clock_Now env (clock lp) < contentsExpiration lp"
  shows "ensureContents env lp = Some (lp\<lparr>clock := clock lp + 1\<rparr>, None)"
  using assms by (simp add: ensureContents_def Let_def)

lemma ListObjects_fresh:
  assumes "clock_Now env (clock lp) < contentsExpiration lp"
  shows "ListObjects env lp =
         Some (lp\<lparr>clock := clock lp + 1\<rparr>, Inr (readObjects (contents lp), readSubdirs (contents lp)))"
  by (simp add: ListObjects_def ensureContents_fresh [OF assms])

lemma ensureContents_refreshed:
  fixes env :: "('m, 'e) env"
  assumes "\<not> clock_Now env (clock lp) < contentsExpiration lp"
    and "ensureContents env lp = Some (lp', None)"
  shows "bucket lp' = bucket lp + 1 \<and> clock lp' = clock lp + 3 \<and>
         contentsExpiration lp' = Time_Add (clock_Now env (clock lp + 2)) ListingProxy_ListingCacheTTL"
proof (cases "gcsutil_List env (bucket lp)")
  case (Inl err)
  then show ?thesis using assms by (simp add: ensureContents_def Let_def)
next
  case (Inr r)
  obtain objects subdirs where r: "r = (objects, subdirs)" by (cases r)
  show ?thesis
  proof (cases "processObjects (name lp) objects [] :: 'e error + (string \<times> 'm node) list")
    case (Inl err)
    then show ?thesis using assms Inr r by (simp add: ensureContents_def Let_def)
  next
    case c1: (Inr c1)
    show ?thesis
    proof (cases "processSubdirs (name lp) subdirs c1 :: 'e error + (string \<times> 'm node) list")
      case (Inl err)
      then show ?thesis using assms Inr r c1 by (simp add: ensureContents_def Let_def)
    next
      case c2: (Inr c2)
      show ?thesis
      proof (cases "cleanChildModifications env (lp\<lparr>clock := clock lp + 1, bucket := bucket lp + 1\<rparr>)")
        case None
        then show ?thesis using assms Inr r c1 c2 by (simp add: ensureContents_def Let_def)
      next
        case (Some lp3)
        have f: "clock lp3 = clock lp + 2" "bucket lp3 = bucket lp + 1"
          using cleanChildModifications_frame [OF Some] by simp_all
        show ?thesis
          using assms Inr r c1 c2 Some f
          by (auto simp: ensureContents_def Let_def fold_playBackModification)
      qed
    qed
  qed
qed

text \<open>
  Claim C8. If a \<open>List\<close> call finds the contents stale and refreshes them with success, the
  refresh reading the clock at \<open>t\<close> (the third reading of the call) for the new expiration,
  and the next \<open>List\<close> call reads the clock before \<open>t\<close> plus \<open>ListingProxy_ListingCacheTTL\<close>
  (the time that \<open>Add\<close> returns, which is the sum within the range of \<open>time.Time\<close>), then
  that call returns the same listing without a call of the bucket: the two calls have
  listed the bucket once.
\<close>

theorem cache_reuse:
  fixes env :: "('m, 'e) env"
  assumes "\<not> clock_Now env (clock lp) < contentsExpiration lp"
    and "ListObjects env lp = Some (lp1, Inr r)"
    and "clock_Now env (clock lp + 3) <
           Time_Add (clock_Now env (clock lp + 2)) ListingProxy_ListingCacheTTL"
  shows "bucket lp1 = bucket lp + 1 \<and>
         contentsExpiration lp1 = Time_Add (clock_Now env (clock lp + 2)) ListingProxy_ListingCacheTTL \<and>
         ListObjects env lp1 = Some (lp1\<lparr>clock := clock lp + 4\<rparr>, Inr r) \<and>
         bucket (lp1\<lparr>clock := clock lp + 4\<rparr>) = bucket lp + 1"
proof -
  have e: "ensureContents env lp = Some (lp1, None)"
    and r: "r = (readObjects (contents lp1), readSubdirs (contents lp1))"
    using assms(2)
    by (auto simp: ListObjects_def split: option.splits prod.splits)
  have f: "bucket lp1 = bucket lp + 1" "clock lp1 = clock lp + 3"
    "contentsExpiration lp1 = Time_Add (clock_Now env (clock lp + 2)) ListingProxy_ListingCacheTTL"
    using ensureContents_refreshed [OF assms(1) e] by simp_all
  have "clock_Now env (clock lp1) < contentsExpiration lp1"
    using assms(3) f by simp
  then have "ListObjects env lp1 = Some (lp1\<lparr>clock := clock lp1 + 1\<rparr>, Inr r)"
    using r by (simp add: ListObjects_fresh)
  then show ?thesis using f by simp
qed

theorem cache_reuse_witness:
  "(let x = \<lparr>Name = ''a/x'', payload = ()\<rparr>;
        env0 = \<lparr> clock_Now = (\<lambda>k. int k * 1000000000),
                 gcsutil_List = (\<lambda>k. if k = 0 then Inr ([x], [''a/b/'']) else Inl ()) \<rparr>
               :: (unit, unit) env;
        lp0 = \<lparr> bucket = 0, clock = 0, name = ''a/'', contents = [],
                contentsExpiration = 0, childModifications = [],
                childModificationsIndex = [], nextElement = 0 \<rparr>;
        lp1 = \<lparr> bucket = 1, clock = 3, name = ''a/'',
                contents = [(''a/x'', ObjectNode x), (''a/b/'', SubdirNode ''a/b/'')],
                contentsExpiration = 12000000000, childModifications = [],
                childModificationsIndex = [], nextElement = 0 \<rparr>
    in \<not> clock_Now env0 (clock lp0) < contentsExpiration lp0 \<and>
       ListObjects env0 lp0 = Some (lp1, Inr ([x], [''a/b/''])) \<and>
       clock_Now env0 (clock lp0 + 3) <
         Time_Add (clock_Now env0 (clock lp0 + 2)) ListingProxy_ListingCacheTTL \<and>
       ListObjects env0 lp1 = Some (lp1\<lparr>clock := 4\<rparr>, Inr ([x], [''a/b/''])) \<and>
       bucket (lp1\<lparr>clock := 4\<rparr>) = 1)"
proof -
  let ?x = "\<lparr>Name = ''a/x'', payload = ()\<rparr>"
  let ?env = "\<lparr> clock_Now = (\<lambda>k. int k * 1000000000),
                gcsutil_List = (\<lambda>k. if k = 0 then Inr ([?x], [''a/b/'']) else Inl ()) \<rparr>
              :: (unit, unit) env"
  let ?init = "\<lparr> bucket = 0, clock = 0, name = ''a/'', contents = [],
                contentsExpiration = 0, childModifications = [],
                childModificationsIndex = [], nextElement = 0 \<rparr> :: unit ListingProxy"
  let ?st = "\<lparr> bucket = 1, clock = 3, name = ''a/'',
                contents = [(''a/x'', ObjectNode ?x), (''a/b/'', SubdirNode ''a/b/'')],
                contentsExpiration = 12000000000, childModifications = [],
                childModificationsIndex = [], nextElement = 0 \<rparr> :: unit ListingProxy"
  have h1: "\<not> clock_Now ?env (clock ?init) < contentsExpiration ?init" by simp
  have h2: "ListObjects ?env ?init = Some (?st, Inr ([?x], [''a/b/'']))" by code_simp
  have h3: "clock_Now ?env (clock ?init + 3) <
              Time_Add (clock_Now ?env (clock ?init + 2)) ListingProxy_ListingCacheTTL"
    by (simp add: ListingProxy_ListingCacheTTL_def Time_Add_def Time_maxSec_def)
  show ?thesis
    using cache_reuse [OF h1 h2 h3] h2
    by (simp add: Let_def ListingProxy_ListingCacheTTL_def Time_Add_def Time_maxSec_def)
qed

subsection \<open>The placeholder object\<close>

lemma processObjects_placeholder:
  "processObjects p (filter (\<lambda>o'. Name o' \<noteq> p) objs) c = processObjects p objs c"
  by (induction objs arbitrary: c) (auto split: option.splits)

lemma cleanChildModifications_bucket_answers:
  "cleanChildModifications (env\<lparr>gcsutil_List := g\<rparr>) lp = cleanChildModifications env lp"
  by (simp add: cleanChildModifications_def)

lemma ensureContents_name:
  assumes "ensureContents env lp = Some (lp', err)"
  shows "name lp' = name lp"
  using assms
  by (auto simp: ensureContents_def Let_def fold_playBackModification
           split: option.splits sum.splits prod.splits if_splits
           dest!: cleanChildModifications_frame)

lemma readObjects_names:
  assumes "list_all (contentsEntryOk p) c" "o' \<in> set (readObjects c)"
  shows "Name o' \<noteq> p"
  using assms
  by (induction c rule: readObjects.induct) (auto simp: contentsEntryOk_def)

text \<open>
  Claim C9. An object of the listing whose name is the name of the directory is dropped
  by the refresh before any check: \<open>List\<close> does the same, error or not, as if the bucket had
  not returned it; and on a proxy that a program can hold, no object that \<open>List\<close> returns
  has the name of the directory.
\<close>

theorem placeholder_discarded:
  fixes env :: "('m, 'e) env"
  assumes "NewListingProxy b c dir = (Inr lp0 :: 'e error + 'm ListingProxy)"
    and "run env cs lp0 = Some lp"
  shows "ListObjects
           (env\<lparr>gcsutil_List := \<lambda>k. case gcsutil_List env k of
                                      Inl e \<Rightarrow> Inl e
                                    | Inr (objects, subdirs) \<Rightarrow>
                                        Inr (filter (\<lambda>o'. Name o' \<noteq> name lp) objects, subdirs)\<rparr>)
           lp = ListObjects env lp \<and>
         (\<forall>lp' objects subdirs.
            ListObjects env lp = Some (lp', Inr (objects, subdirs)) \<longrightarrow>
            (\<forall>o'\<in>set objects. Name o' \<noteq> name lp))"
proof -
  let ?env = "env\<lparr>gcsutil_List := \<lambda>k. case gcsutil_List env k of
                                      Inl e \<Rightarrow> Inl e
                                    | Inr (objects, subdirs) \<Rightarrow>
                                        Inr (filter (\<lambda>o'. Name o' \<noteq> name lp) objects, subdirs)\<rparr>"
  have "ensureContents ?env lp = ensureContents env lp"
    by (cases "gcsutil_List env (bucket lp)")
       (auto simp: ensureContents_def Let_def processObjects_placeholder
                   cleanChildModifications_bucket_answers
             split: sum.splits option.splits)
  then have a: "ListObjects ?env lp = ListObjects env lp"
    by (simp add: ListObjects_def)
  have s: "sound lp" using assms by (rule run_keeps_sound)
  have b: "\<forall>lp' objects subdirs.
            ListObjects env lp = Some (lp', Inr (objects, subdirs)) \<longrightarrow>
            (\<forall>o'\<in>set objects. Name o' \<noteq> name lp)"
  proof (intro allI impI ballI)
    fix lp' objects subdirs o'
    assume l: "ListObjects env lp = Some (lp', Inr (objects, subdirs))"
      and o: "o' \<in> set objects"
    obtain lp'' r where "ListObjects env lp = Some (lp'', r)" "sound lp''"
      using ListObjects_sound [OF s] by blast
    then have s': "sound lp'" using l by simp
    have n: "name lp' = name lp"
      using l ensureContents_name [of env lp lp']
      by (auto simp: ListObjects_def split: option.splits prod.splits)
    have "objects = readObjects (contents lp')"
      using l by (auto simp: ListObjects_def split: option.splits prod.splits)
    then show "Name o' \<noteq> name lp"
      using readObjects_names [of "name lp'" "contents lp'" o'] s' o n
      by (simp add: sound_def)
  qed
  show ?thesis using a b by blast
qed

theorem placeholder_discarded_witness:
  "NewListingProxy 0 0 ''a/'' =
     (Inr \<lparr> bucket = 0, clock = 0, name = ''a/'', contents = [],
            contentsExpiration = 0, childModifications = [],
            childModificationsIndex = [], nextElement = 0 \<rparr>
        :: unit error + unit ListingProxy) \<and>
   run (\<lparr> clock_Now = (\<lambda>k. 0),
         gcsutil_List = (\<lambda>k. Inr ([\<lparr>Name = ''a/'', payload = ()\<rparr>,
                                    \<lparr>Name = ''a/x'', payload = ()\<rparr>], [])) \<rparr> :: (unit, unit) env)
       []
       \<lparr> bucket = 0, clock = 0, name = ''a/'', contents = [],
         contentsExpiration = 0, childModifications = [],
         childModificationsIndex = [], nextElement = 0 \<rparr> =
     Some \<lparr> bucket = 0, clock = 0, name = ''a/'', contents = [],
            contentsExpiration = 0, childModifications = [],
            childModificationsIndex = [], nextElement = 0 \<rparr> \<and>
   ListObjects
       (\<lparr> clock_Now = (\<lambda>k. 0),
         gcsutil_List = (\<lambda>k. Inr ([\<lparr>Name = ''a/'', payload = ()\<rparr>,
                                    \<lparr>Name = ''a/x'', payload = ()\<rparr>], [])) \<rparr> :: (unit, unit) env)
       \<lparr> bucket = 0, clock = 0, name = ''a/'', contents = [],
         contentsExpiration = 0, childModifications = [],
         childModificationsIndex = [], nextElement = 0 \<rparr> =
     Some (\<lparr> bucket = 1, clock = 3, name = ''a/'',
             contents = [(''a/x'', ObjectNode \<lparr>Name = ''a/x'', payload = ()\<rparr>)],
             contentsExpiration = 10000000000, childModifications = [],
             childModificationsIndex = [], nextElement = 0 \<rparr>,
           Inr ([\<lparr>Name = ''a/x'', payload = ()\<rparr>], [])) \<and>
   Name \<lparr>Name = ''a/x'', payload = ()\<rparr> \<noteq> ''a/''"
proof -
  let ?env = "\<lparr> clock_Now = (\<lambda>k. 0),
                gcsutil_List = (\<lambda>k. Inr ([\<lparr>Name = ''a/'', payload = ()\<rparr>,
                                           \<lparr>Name = ''a/x'', payload = ()\<rparr>], [])) \<rparr>
              :: (unit, unit) env"
  let ?init = "\<lparr> bucket = 0, clock = 0, name = ''a/'', contents = [],
                 contentsExpiration = 0, childModifications = [],
                 childModificationsIndex = [], nextElement = 0 \<rparr> :: unit ListingProxy"
  let ?st = "\<lparr> bucket = 1, clock = 3, name = ''a/'',
               contents = [(''a/x'', ObjectNode \<lparr>Name = ''a/x'', payload = ()\<rparr>)],
               contentsExpiration = 10000000000, childModifications = [],
               childModificationsIndex = [], nextElement = 0 \<rparr> :: unit ListingProxy"
  have h1: "NewListingProxy 0 0 ''a/'' = (Inr ?init :: unit error + unit ListingProxy)"
    by (simp add: NewListingProxy_def isDirName_def)
  have h2: "run ?env [] ?init = Some ?init" by simp
  have h3: "ListObjects ?env ?init = Some (?st, Inr ([\<lparr>Name = ''a/x'', payload = ()\<rparr>], []))"
    by code_simp
  have "\<forall>o'\<in>set [\<lparr>Name = ''a/x'', payload = ()\<rparr>]. Name o' \<noteq> name ?init"
    using placeholder_discarded [OF h1 h2] h3 by blast
  then have c: "Name \<lparr>Name = ''a/x'', payload = ()\<rparr> \<noteq> ''a/''" by simp
  show ?thesis by (rule conjI [OF h1 conjI [OF h2 conjI [OF h3 c]]])
qed

subsection \<open>A refresh that fails\<close>




lemma processSubdirs_error_kind:
  "processSubdirs p ds c = Inl err \<Longrightarrow>
     (\<exists>ne n. err = BadSubdirNameListed ne n) \<or> (\<exists>n. err = NonDescendantDirListed n)"
  by (induction ds arbitrary: c) (auto split: option.splits if_splits)




subsection \<open>A new object, noted and listed\<close>

lemma dropWhile_snoc_kept: "\<not> P e \<Longrightarrow> dropWhile P (xs @ [e]) = dropWhile P xs @ [e]"
  by (induction xs) auto

lemma filter_dropWhile_none:
  assumes "\<forall>x\<in>set xs. \<not> Q x"
  shows "filter Q (dropWhile P xs) = []"
proof -
  have "set (dropWhile P xs) \<subseteq> set xs" by (rule set_dropWhileD [THEN subsetI])
  then show ?thesis using assms by (auto simp: filter_empty_conv)
qed

lemma readObjects_member:
  "map_of c k = Some (ObjectNode o') \<Longrightarrow> o' \<in> set (readObjects c)"
  by (induction c rule: readObjects.induct) (auto split: if_splits)

lemma NoteNewObject_accepted:
  assumes "journalOk lp" "checkObjectName (name lp) (Name o') = None"
  shows "NoteNewObject env o' lp =
         Some (pruned (clock_Now env (clock lp + 1)) ((noted env o' lp)\<lparr>clock := clock lp + 2\<rparr>),
               None)"
proof -
  have j: "journalOk (noted env o' lp)" using assms(1) by (rule journalOk_noted)
  show ?thesis
    using cleanChildModifications_pruned [OF j, of env]
    by (simp add: NoteNewObject_def NoteNewObject_body_noted [OF assms])
qed

lemma NoteNewObject_success:
  assumes "journalOk lp" "NoteNewObject env o' lp = Some (lp1, None)"
  shows "checkObjectName (name lp) (Name o') = None"
proof (cases "checkObjectName (name lp) (Name o')")
  case None
  then show ?thesis .
next
  case (Some err)
  then show ?thesis
    using assms(2)
    by (auto simp: NoteNewObject_def NoteNewObject_body_rejected [OF Some])
qed

text \<open>The journal after \<open>NoteNewObject\<close> of a legal object, when the clock at the trimming
  is before the expiration of the new record: the new record is the only one of its name.\<close>

lemma noted_pruned_journal:
  assumes "now < Time_Add (clock_Now env (clock lp)) ListingProxy_ModificationMemoryTTL"
  shows "filter (\<lambda>e. m_name (snd e) = Name o')
           (childModifications (pruned now ((noted env o' lp)\<lparr>clock := k\<rparr>))) =
         [(nextElement lp,
           \<lparr> m_expiration = Time_Add (clock_Now env (clock lp)) ListingProxy_ModificationMemoryTTL,
             m_name = Name o', m_node = Some (ObjectNode o') \<rparr>)]"
proof -
  let ?e = "(nextElement lp,
           \<lparr> m_expiration = Time_Add (clock_Now env (clock lp)) ListingProxy_ModificationMemoryTTL,
             m_name = Name o', m_node = Some (ObjectNode o') \<rparr>)"
  let ?P = "\<lambda>e :: 'a Element. \<not> now < m_expiration (snd e)"
  let ?xs = "filter (\<lambda>x. m_name (snd x) \<noteq> Name o') (childModifications lp)"
  have l: "childModifications ((noted env o' lp)\<lparr>clock := k\<rparr>) = ?xs @ [?e]"
    by (simp add: noted_def Let_def)
  have k: "\<not> ?P ?e" using assms by simp
  have d: "dropWhile ?P (?xs @ [?e]) = dropWhile ?P ?xs @ [?e]"
    using k by (intro dropWhile_snoc_kept) simp
  have n: "filter (\<lambda>e. m_name (snd e) = Name o') (dropWhile ?P ?xs) = []"
    by (rule filter_dropWhile_none) simp
  show ?thesis
    unfolding pruned_fields l d by (simp add: n)
qed

text \<open>
  Claim C7, amended. On a proxy that a program can hold, two calls in succession of
  \<open>NoteNewObject\<close> with the same object of a legal name both succeed; the contents then
  hold that object under its name; and if the clock, when the second call trims the
  journal, is before the expiration that the second call gave its record (\<open>Add\<close> of
  \<open>ListingProxy_ModificationMemoryTTL\<close> to the clock reading of the call), the journal
  holds one record of that name, the one of the second call.
\<close>

theorem NoteNewObject_twice:
  fixes env :: "('m, 'e) env"
  assumes "NewListingProxy b c dir = (Inr lp0 :: 'e error + 'm ListingProxy)"
    and "run env cs lp0 = Some lp"
    and "checkObjectName (name lp) (Name o') = None"
  shows "\<exists>lp1 lp2.
           NoteNewObject env o' lp = Some (lp1, None) \<and>
           NoteNewObject env o' lp1 = Some (lp2, None) \<and>
           map_of (contents lp2) (Name o') = Some (ObjectNode o') \<and>
           (clock_Now env (clock lp + 3) <
              Time_Add (clock_Now env (clock lp + 2)) ListingProxy_ModificationMemoryTTL \<longrightarrow>
            filter (\<lambda>e. m_name (snd e) = Name o') (childModifications lp2) =
              [(nextElement lp + 1,
                \<lparr> m_expiration =
                    Time_Add (clock_Now env (clock lp + 2)) ListingProxy_ModificationMemoryTTL,
                  m_name = Name o', m_node = Some (ObjectNode o') \<rparr>)])"
proof -
  define lp1 where
    "lp1 = pruned (clock_Now env (clock lp + 1)) ((noted env o' lp)\<lparr>clock := clock lp + 2\<rparr>)"
  define lp2 where
    "lp2 = pruned (clock_Now env (clock lp1 + 1)) ((noted env o' lp1)\<lparr>clock := clock lp1 + 2\<rparr>)"
  have s: "sound lp" using assms(1,2) by (rule run_keeps_sound)
  then have j: "journalOk lp" by (simp add: sound_def)
  have n1: "NoteNewObject env o' lp = Some (lp1, None)"
    unfolding lp1_def by (rule NoteNewObject_accepted [OF j assms(3)])
  have "sound lp1"
    using NoteNewObject_sound [OF s, of env o'] n1 by auto
  then have j1: "journalOk lp1" by (simp add: sound_def)
  have f1: "name lp1 = name lp" "clock lp1 = clock lp + 2" "nextElement lp1 = nextElement lp + 1"
    by (simp_all add: lp1_def)
  have c1: "checkObjectName (name lp1) (Name o') = None" using assms(3) f1 by simp
  have n2: "NoteNewObject env o' lp1 = Some (lp2, None)"
    unfolding lp2_def by (rule NoteNewObject_accepted [OF j1 c1])
  have m: "map_of (contents lp2) (Name o') = Some (ObjectNode o')"
    by (simp add: lp2_def update_conv')
  have r: "clock_Now env (clock lp + 3) <
              Time_Add (clock_Now env (clock lp + 2)) ListingProxy_ModificationMemoryTTL \<longrightarrow>
            filter (\<lambda>e. m_name (snd e) = Name o') (childModifications lp2) =
              [(nextElement lp + 1,
                \<lparr> m_expiration =
                    Time_Add (clock_Now env (clock lp + 2)) ListingProxy_ModificationMemoryTTL,
                  m_name = Name o', m_node = Some (ObjectNode o') \<rparr>)]"
  proof
    assume a: "clock_Now env (clock lp + 3) <
              Time_Add (clock_Now env (clock lp + 2)) ListingProxy_ModificationMemoryTTL"
    have k: "clock lp1 + 1 = clock lp + 3" using f1 by simp
    have "clock_Now env (clock lp1 + 1) <
            Time_Add (clock_Now env (clock lp1)) ListingProxy_ModificationMemoryTTL"
      unfolding k using a f1(2) by simp
    then show "filter (\<lambda>e. m_name (snd e) = Name o') (childModifications lp2) =
              [(nextElement lp + 1,
                \<lparr> m_expiration =
                    Time_Add (clock_Now env (clock lp + 2)) ListingProxy_ModificationMemoryTTL,
                  m_name = Name o', m_node = Some (ObjectNode o') \<rparr>)]"
      unfolding lp2_def using noted_pruned_journal [of _ env lp1 o'] f1 by simp
  qed
  show ?thesis using n1 n2 m r by blast
qed

theorem NoteNewObject_twice_witness:
  "NewListingProxy 0 0 ''a/'' =
     (Inr \<lparr> bucket = 0, clock = 0, name = ''a/'', contents = [],
            contentsExpiration = 0, childModifications = [],
            childModificationsIndex = [], nextElement = 0 \<rparr>
        :: unit error + unit ListingProxy) \<and>
   run (\<lparr> clock_Now = (\<lambda>k. int k), gcsutil_List = (\<lambda>k. Inl ()) \<rparr> :: (unit, unit) env) []
       \<lparr> bucket = 0, clock = 0, name = ''a/'', contents = [],
         contentsExpiration = 0, childModifications = [],
         childModificationsIndex = [], nextElement = 0 \<rparr> =
     Some \<lparr> bucket = 0, clock = 0, name = ''a/'', contents = [],
            contentsExpiration = 0, childModifications = [],
            childModificationsIndex = [], nextElement = 0 \<rparr> \<and>
   checkObjectName ''a/'' ''a/x'' = None \<and>
   (\<exists>lp1 lp2.
      NoteNewObject (\<lparr> clock_Now = (\<lambda>k. int k), gcsutil_List = (\<lambda>k. Inl ()) \<rparr> :: (unit, unit) env)
        \<lparr>Name = ''a/x'', payload = ()\<rparr>
        \<lparr> bucket = 0, clock = 0, name = ''a/'', contents = [],
          contentsExpiration = 0, childModifications = [],
          childModificationsIndex = [], nextElement = 0 \<rparr> = Some (lp1, None) \<and>
      NoteNewObject \<lparr> clock_Now = (\<lambda>k. int k), gcsutil_List = (\<lambda>k. Inl ()) \<rparr>
        \<lparr>Name = ''a/x'', payload = ()\<rparr> lp1 = Some (lp2, None) \<and>
      map_of (contents lp2) ''a/x'' = Some (ObjectNode \<lparr>Name = ''a/x'', payload = ()\<rparr>) \<and>
      filter (\<lambda>e. m_name (snd e) = ''a/x'') (childModifications lp2) =
        [(1, \<lparr> m_expiration = 300000000002, m_name = ''a/x'',
               m_node = Some (ObjectNode \<lparr>Name = ''a/x'', payload = ()\<rparr>) \<rparr>)])"
proof -
  let ?env = "\<lparr> clock_Now = (\<lambda>k. int k), gcsutil_List = (\<lambda>k. Inl ()) \<rparr> :: (unit, unit) env"
  let ?init = "\<lparr> bucket = 0, clock = 0, name = ''a/'', contents = [],
                contentsExpiration = 0, childModifications = [],
                childModificationsIndex = [], nextElement = 0 \<rparr> :: unit ListingProxy"
  let ?obj = "\<lparr>Name = ''a/x'', payload = ()\<rparr>"
  have h1: "NewListingProxy 0 0 ''a/'' = (Inr ?init :: unit error + unit ListingProxy)"
    by code_simp
  have h2: "run ?env [] ?init = Some ?init" by simp
  have h3: "checkObjectName ''a/'' ''a/x'' = None" by code_simp
  have h3': "checkObjectName (name ?init) (Name ?obj) = None" using h3 by simp
  have h4: "clock_Now ?env (clock ?init + 3) <
              Time_Add (clock_Now ?env (clock ?init + 2)) ListingProxy_ModificationMemoryTTL"
    by (simp add: ListingProxy_ModificationMemoryTTL_def Time_Add_def Time_maxSec_def)
  have e: "Time_Add (clock_Now ?env (clock ?init + 2)) ListingProxy_ModificationMemoryTTL = 300000000002"
    by (simp add: ListingProxy_ModificationMemoryTTL_def Time_Add_def Time_maxSec_def)
  have n: "nextElement ?init + 1 = 1" by simp
  have c: "\<exists>lp1 lp2.
      NoteNewObject ?env ?obj ?init = Some (lp1, None) \<and>
      NoteNewObject ?env ?obj lp1 = Some (lp2, None) \<and>
      map_of (contents lp2) ''a/x'' = Some (ObjectNode ?obj) \<and>
      filter (\<lambda>e. m_name (snd e) = ''a/x'') (childModifications lp2) =
        [(1, \<lparr> m_expiration = 300000000002, m_name = ''a/x'',
               m_node = Some (ObjectNode ?obj) \<rparr>)]"
    using NoteNewObject_twice [OF h1 h2 h3'] h4 unfolding e n by simp
  show ?thesis by (rule conjI [OF h1 conjI [OF h2 conjI [OF h3 c]]])
qed

text \<open>
  Without the condition on the clock the journal can end with no record of the name. The
  clock reads 0 three times and then 300000000000, five minutes later: the second call
  gives its record the expiration 300000000000, and the trimming that ends the same call
  reads that very time and drops the record, an expiration that is not after the present
  being expired.
\<close>

theorem NoteNewObject_twice_counterexample:
  "(let env0 = \<lparr> clock_Now = (\<lambda>k. if k < 3 then 0 else 300000000000),
                 gcsutil_List = (\<lambda>k. Inl ()) \<rparr> :: (unit, unit) env;
        obj = \<lparr>Name = ''a/x'', payload = ()\<rparr>;
        st0 = \<lparr> bucket = 0, clock = 0, name = ''a/'', contents = [],
                contentsExpiration = 0, childModifications = [],
                childModificationsIndex = [], nextElement = 0 \<rparr> :: unit ListingProxy;
        st1 = \<lparr> bucket = 0, clock = 2, name = ''a/'',
                contents = [(''a/x'', ObjectNode obj)], contentsExpiration = 0,
                childModifications =
                  [(0, \<lparr>m_expiration = 300000000000, m_name = ''a/x'',
                         m_node = Some (ObjectNode obj)\<rparr>)],
                childModificationsIndex =
                  [(''a/x'', 0, \<lparr>m_expiration = 300000000000, m_name = ''a/x'',
                                  m_node = Some (ObjectNode obj)\<rparr>)],
                nextElement = 1 \<rparr>;
        st2 = \<lparr> bucket = 0, clock = 4, name = ''a/'',
                contents = [(''a/x'', ObjectNode obj)], contentsExpiration = 0,
                childModifications = [], childModificationsIndex = [],
                nextElement = 2 \<rparr>
    in NewListingProxy 0 0 ''a/'' = (Inr st0 :: unit error + unit ListingProxy) \<and>
       checkObjectName ''a/'' (Name obj) = None \<and>
       NoteNewObject env0 obj st0 = Some (st1, None) \<and>
       NoteNewObject env0 obj st1 = Some (st2, None) \<and>
       filter (\<lambda>e. m_name (snd e) = Name obj) (childModifications st2) = [])"
  by code_simp

subsection \<open>A noted object in the next listing\<close>

lemma dropWhile_member: "e \<in> set xs \<Longrightarrow> \<not> P e \<Longrightarrow> e \<in> set (dropWhile P xs)"
  by (induction xs) auto

lemma ListObjects_success:
  assumes "ListObjects env lp = Some (lp', Inr (objects, subdirs))"
  shows "ensureContents env lp = Some (lp', None) \<and> objects = readObjects (contents lp')"
  using assms by (auto simp: ListObjects_def split: option.splits prod.splits)

lemma ensureContents_refreshed_journal:
  fixes env :: "('m, 'e) env"
  assumes "journalOk lp"
    and "\<not> clock_Now env (clock lp) < contentsExpiration lp"
    and "ensureContents env lp = Some (lp', None)"
  shows "childModifications lp' =
         dropWhile (\<lambda>e. \<not> clock_Now env (clock lp + 1) < m_expiration (snd e))
           (childModifications lp)"
proof -
  let ?lp2 = "lp\<lparr>clock := clock lp + 1, bucket := bucket lp + 1\<rparr>"
  have j: "journalOk ?lp2" using assms(1) by simp
  have c: "cleanChildModifications env ?lp2 =
           Some (pruned (clock_Now env (clock ?lp2)) (?lp2\<lparr>clock := clock ?lp2 + 1\<rparr>))"
    by (rule cleanChildModifications_pruned [OF j])
  show ?thesis
    using assms(2,3) c
    by (auto simp: ensureContents_def Let_def fold_playBackModification
             split: sum.splits option.splits)
qed

lemma ensureContents_stale:
  fixes env :: "('m, 'e) env"
  assumes "\<not> clock_Now env (clock lp) < contentsExpiration lp"
    and "ensureContents env lp = Some (lp', err)"
  shows "bucket lp' = bucket lp + 1 \<and>
         (\<forall>e. gcsutil_List env (bucket lp) = Inl e \<longrightarrow> err = Some (GcsutilListFailed e))"
  using assms
  by (auto simp: ensureContents_def Let_def fold_playBackModification
           split: option.splits sum.splits prod.splits
           dest!: cleanChildModifications_frame)

lemma ListObjects_result:
  assumes "ListObjects env lp = Some (lp', r)"
  shows "\<exists>err. ensureContents env lp = Some (lp', err) \<and>
           (case err of
              Some e \<Rightarrow> r = Inl e
            | None \<Rightarrow> r = Inr (readObjects (contents lp'), readSubdirs (contents lp')))"
  using assms by (auto simp: ListObjects_def split: option.splits prod.splits)

text \<open>
  Claim C6, amended. On a proxy that a program can hold, let \<open>NoteNewObject\<close> succeed for
  an object. The \<open>List\<close> call that follows returns, and

  \<^item> if it finds the contents not expired, it returns a listing with the object and has
    not listed the bucket;
  \<^item> if it finds the contents stale, it has listed the bucket once; if that listing
    failed, it returns the error of the bucket; and if it returns a listing, the
    listing holds the object provided the two trimmings of the journal since the record
    was made (at the end of \<open>NoteNewObject\<close> and in the refresh) read the clock before the
    expiration of the record, which is \<open>Add\<close> of \<open>ListingProxy_ModificationMemoryTTL\<close> to the
    clock reading of \<open>NoteNewObject\<close>.
\<close>

theorem noted_object_listed:
  fixes env :: "('m, 'e) env"
  assumes "NewListingProxy b c dir = (Inr lp0 :: 'e error + 'm ListingProxy)"
    and "run env cs lp0 = Some lp"
    and "NoteNewObject env o' lp = Some (lp1, None)"
  shows "\<exists>lp2 r. ListObjects env lp1 = Some (lp2, r) \<and>
           (if clock_Now env (clock lp + 2) < contentsExpiration lp
            then bucket lp2 = bucket lp \<and>
                 (\<exists>objects subdirs. r = Inr (objects, subdirs) \<and> o' \<in> set objects)
            else bucket lp2 = bucket lp + 1 \<and>
                 (\<forall>e. gcsutil_List env (bucket lp) = Inl e \<longrightarrow>
                        r = Inl (GcsutilListFailed e)) \<and>
                 (\<forall>objects subdirs.
                    r = Inr (objects, subdirs) \<and>
                    clock_Now env (clock lp + 1) <
                      Time_Add (clock_Now env (clock lp)) ListingProxy_ModificationMemoryTTL \<and>
                    clock_Now env (clock lp + 3) <
                      Time_Add (clock_Now env (clock lp)) ListingProxy_ModificationMemoryTTL \<longrightarrow>
                    o' \<in> set objects))"
proof -
  let ?e = "(nextElement lp,
             \<lparr> m_expiration =
                 Time_Add (clock_Now env (clock lp)) ListingProxy_ModificationMemoryTTL,
               m_name = Name o', m_node = Some (ObjectNode o') \<rparr>)"
  let ?xs = "filter (\<lambda>x. m_name (snd x) \<noteq> Name o') (childModifications lp)"
  have s: "sound lp" using assms(1,2) by (rule run_keeps_sound)
  then have j: "journalOk lp" by (simp add: sound_def)
  have ok: "checkObjectName (name lp) (Name o') = None"
    by (rule NoteNewObject_success [OF j assms(3)])
  have lp1: "lp1 = pruned (clock_Now env (clock lp + 1))
                     ((noted env o' lp)\<lparr>clock := clock lp + 2\<rparr>)"
    using NoteNewObject_accepted [OF j ok, of env] assms(3) by simp
  have f1: "clock lp1 = clock lp + 2" "bucket lp1 = bucket lp"
    "contentsExpiration lp1 = contentsExpiration lp"
    "contents lp1 = AList.update (Name o') (ObjectNode o') (contents lp)"
    by (simp_all add: lp1)
  have s1: "sound lp1" using NoteNewObject_sound [OF s, of env o'] assms(3) by auto
  then have j1: "journalOk lp1" by (simp add: sound_def)
  obtain lp2 r where l: "ListObjects env lp1 = Some (lp2, r)" and s2: "sound lp2"
    using ListObjects_sound [OF s1, of env] by blast
  obtain err where ec: "ensureContents env lp1 = Some (lp2, err)"
    and res: "case err of Some e \<Rightarrow> r = Inl e
              | None \<Rightarrow> r = Inr (readObjects (contents lp2), readSubdirs (contents lp2))"
    using ListObjects_result [OF l] by blast
  show ?thesis
  proof (cases "clock_Now env (clock lp + 2) < contentsExpiration lp")
    case True
    then have "clock_Now env (clock lp1) < contentsExpiration lp1" by (simp add: f1)
    then have "ensureContents env lp1 = Some (lp1\<lparr>clock := clock lp1 + 1\<rparr>, None)"
      by (rule ensureContents_fresh)
    then have lp2: "lp2 = lp1\<lparr>clock := clock lp1 + 1\<rparr>" and err: "err = None"
      using ec by simp_all
    have "map_of (contents lp2) (Name o') = Some (ObjectNode o')"
      by (simp add: lp2 f1 update_conv')
    then have "o' \<in> set (readObjects (contents lp2))" by (rule readObjects_member)
    moreover have "r = Inr (readObjects (contents lp2), readSubdirs (contents lp2))"
      using res err by simp
    moreover have "bucket lp2 = bucket lp" by (simp add: lp2 f1)
    ultimately show ?thesis using True l by auto
  next
    case False
    then have stale: "\<not> clock_Now env (clock lp1) < contentsExpiration lp1" by (simp add: f1)
    have st: "bucket lp2 = bucket lp1 + 1"
      "\<forall>e. gcsutil_List env (bucket lp1) = Inl e \<longrightarrow> err = Some (GcsutilListFailed e)"
      using ensureContents_stale [OF stale ec] by simp_all
    have b: "bucket lp2 = bucket lp + 1" using st(1) by (simp add: f1)
    have fail: "\<forall>e. gcsutil_List env (bucket lp) = Inl e \<longrightarrow> r = Inl (GcsutilListFailed e)"
      using st(2) res by (auto simp: f1)
    have listed: "o' \<in> set objects"
      if r: "r = Inr (objects, subdirs)"
        and a1: "clock_Now env (clock lp + 1) <
                   Time_Add (clock_Now env (clock lp)) ListingProxy_ModificationMemoryTTL"
        and a3: "clock_Now env (clock lp + 3) <
                   Time_Add (clock_Now env (clock lp)) ListingProxy_ModificationMemoryTTL"
      for objects subdirs
    proof -
      let ?P1 = "\<lambda>e :: 'm Element. \<not> clock_Now env (clock lp + 1) < m_expiration (snd e)"
      let ?P3 = "\<lambda>e :: 'm Element. \<not> clock_Now env (clock lp + 3) < m_expiration (snd e)"
      have err: "err = None" using res r by (cases err) simp_all
      then have objs: "objects = readObjects (contents lp2)" using res r by simp
      have ec': "ensureContents env lp1 = Some (lp2, None)" using ec err by simp
      have "childModifications lp1 = dropWhile ?P1 (?xs @ [?e])"
        by (simp add: lp1 noted_def Let_def)
      also have "\<dots> = dropWhile ?P1 ?xs @ [?e]"
        using a1 by (intro dropWhile_snoc_kept) simp
      finally have e1: "?e \<in> set (childModifications lp1)" by simp
      have k: "clock lp1 + 1 = clock lp + 3" by (simp add: f1)
      have "childModifications lp2 = dropWhile ?P3 (childModifications lp1)"
        using ensureContents_refreshed_journal [OF j1 stale ec'] unfolding k .
      moreover have "?e \<in> set (dropWhile ?P3 (childModifications lp1))"
        using e1 a3 by (intro dropWhile_member) simp_all
      ultimately have e2: "?e \<in> set (childModifications lp2)" by simp
      have "recordOk (name lp2) (contents lp2) ?e"
        using s2 e2 by (auto simp: sound_def list_all_iff)
      then have "map_of (contents lp2) (Name o') = Some (ObjectNode o')"
        by (simp add: recordOk_def)
      then show ?thesis unfolding objs by (rule readObjects_member)
    qed
    show ?thesis using False l b fail listed by auto
  qed
qed

theorem noted_object_listed_witness:
  "(let obj = \<lparr>Name = ''a/x'', payload = ()\<rparr>;
        env1 = \<lparr> clock_Now = (\<lambda>k. int k), gcsutil_List = (\<lambda>k. Inr ([], [])) \<rparr>
               :: (unit, unit) env;
        env2 = \<lparr> clock_Now = (\<lambda>k. 0), gcsutil_List = (\<lambda>k. Inl ()) \<rparr>
               :: (unit, unit) env;
        st0 = \<lparr> bucket = 0, clock = 0, name = ''a/'', contents = [],
                 contentsExpiration = 0,
                 childModifications = [], childModificationsIndex = [],
                 nextElement = 0 \<rparr>
               :: unit ListingProxy;
        st1 = \<lparr> bucket = 0, clock = 2, name = ''a/'', contents = [(''a/x'', ObjectNode obj)],
                 contentsExpiration = 0,
                 childModifications =
                   [(0, \<lparr>m_expiration = 300000000000, m_name = ''a/x'', m_node = Some (ObjectNode obj)\<rparr>)],
                 childModificationsIndex =
                   [(''a/x'', 0, \<lparr>m_expiration = 300000000000, m_name = ''a/x'', m_node = Some (ObjectNode obj)\<rparr>)],
                 nextElement = 1 \<rparr>;
        st2 = \<lparr> bucket = 1, clock = 5, name = ''a/'', contents = [(''a/x'', ObjectNode obj)],
                 contentsExpiration = 10000000004,
                 childModifications =
                   [(0, \<lparr>m_expiration = 300000000000, m_name = ''a/x'', m_node = Some (ObjectNode obj)\<rparr>)],
                 childModificationsIndex =
                   [(''a/x'', 0, \<lparr>m_expiration = 300000000000, m_name = ''a/x'', m_node = Some (ObjectNode obj)\<rparr>)],
                 nextElement = 1 \<rparr>;
        st3 = \<lparr> bucket = 1, clock = 3, name = ''a/'', contents = [],
                 contentsExpiration = 10000000002,
                 childModifications = [], childModificationsIndex = [],
                 nextElement = 0 \<rparr>;
        st4 = \<lparr> bucket = 1, clock = 5, name = ''a/'', contents = [(''a/x'', ObjectNode obj)],
                 contentsExpiration = 10000000002,
                 childModifications =
                   [(0, \<lparr>m_expiration = 300000000003, m_name = ''a/x'', m_node = Some (ObjectNode obj)\<rparr>)],
                 childModificationsIndex =
                   [(''a/x'', 0, \<lparr>m_expiration = 300000000003, m_name = ''a/x'', m_node = Some (ObjectNode obj)\<rparr>)],
                 nextElement = 1 \<rparr>
    in NewListingProxy 0 0 ''a/'' = (Inr st0 :: unit error + unit ListingProxy) \<and>
       run env1 [] st0 = Some st0 \<and>
       NoteNewObject env1 obj st0 = Some (st1, None) \<and>
       ListObjects env1 st1 = Some (st2, Inr ([obj], [])) \<and>
       obj \<in> set [obj] \<and>
       bucket st2 = 1 \<and>
       run env2 [] st0 = Some st0 \<and>
       NoteNewObject env2 obj st0 = Some (st1, None) \<and>
       (\<exists>lp2. ListObjects env2 st1 = Some (lp2, Inl (GcsutilListFailed ())) \<and> bucket lp2 = 1) \<and>
       run env1 [CallList] st0 = Some st3 \<and>
       NoteNewObject env1 obj st3 = Some (st4, None) \<and>
       (\<exists>lp2 objects subdirs.
          ListObjects env1 st4 = Some (lp2, Inr (objects, subdirs)) \<and> bucket lp2 = 1 \<and>
          obj \<in> set objects))"
proof -
  let ?obj = "\<lparr>Name = ''a/x'', payload = ()\<rparr>"
  let ?env1 = "\<lparr> clock_Now = (\<lambda>k. int k), gcsutil_List = (\<lambda>k. Inr ([], [])) \<rparr> :: (unit, unit) env"
  let ?env2 = "\<lparr> clock_Now = (\<lambda>k. 0), gcsutil_List = (\<lambda>k. Inl ()) \<rparr> :: (unit, unit) env"
  let ?st0 = "\<lparr> bucket = 0, clock = 0, name = ''a/'', contents = [],
                contentsExpiration = 0,
                childModifications = [], childModificationsIndex = [],
                nextElement = 0 \<rparr> :: unit ListingProxy"
  let ?st1 = "\<lparr> bucket = 0, clock = 2, name = ''a/'', contents = [(''a/x'', ObjectNode ?obj)],
                contentsExpiration = 0,
                childModifications =
                  [(0, \<lparr>m_expiration = 300000000000, m_name = ''a/x'', m_node = Some (ObjectNode ?obj)\<rparr>)],
                childModificationsIndex =
                  [(''a/x'', 0, \<lparr>m_expiration = 300000000000, m_name = ''a/x'', m_node = Some (ObjectNode ?obj)\<rparr>)],
                nextElement = 1 \<rparr> :: unit ListingProxy"
  let ?st2 = "\<lparr> bucket = 1, clock = 5, name = ''a/'', contents = [(''a/x'', ObjectNode ?obj)],
                contentsExpiration = 10000000004,
                childModifications =
                  [(0, \<lparr>m_expiration = 300000000000, m_name = ''a/x'', m_node = Some (ObjectNode ?obj)\<rparr>)],
                childModificationsIndex =
                  [(''a/x'', 0, \<lparr>m_expiration = 300000000000, m_name = ''a/x'', m_node = Some (ObjectNode ?obj)\<rparr>)],
                nextElement = 1 \<rparr> :: unit ListingProxy"
  let ?st3 = "\<lparr> bucket = 1, clock = 3, name = ''a/'', contents = [],
                contentsExpiration = 10000000002,
                childModifications = [], childModificationsIndex = [],
                nextElement = 0 \<rparr> :: unit ListingProxy"
  let ?st4 = "\<lparr> bucket = 1, clock = 5, name = ''a/'', contents = [(''a/x'', ObjectNode ?obj)],
                contentsExpiration = 10000000002,
                childModifications =
                  [(0, \<lparr>m_expiration = 300000000003, m_name = ''a/x'', m_node = Some (ObjectNode ?obj)\<rparr>)],
                childModificationsIndex =
                  [(''a/x'', 0, \<lparr>m_expiration = 300000000003, m_name = ''a/x'', m_node = Some (ObjectNode ?obj)\<rparr>)],
                nextElement = 1 \<rparr> :: unit ListingProxy"
  have h1: "NewListingProxy 0 0 ''a/'' = (Inr ?st0 :: unit error + unit ListingProxy)" by code_simp
  have h2: "run ?env1 [] ?st0 = Some ?st0" by simp
  have h3: "NoteNewObject ?env1 ?obj ?st0 = Some (?st1, None)" by code_simp
  have h4: "ListObjects ?env1 ?st1 = Some (?st2, Inr ([?obj], []))" by code_simp
  have g2: "run ?env2 [] ?st0 = Some ?st0" by simp
  have g3: "NoteNewObject ?env2 ?obj ?st0 = Some (?st1, None)" by code_simp
  have k2: "run ?env1 [CallList] ?st0 = Some ?st3" by code_simp
  have k3: "NoteNewObject ?env1 ?obj ?st3 = Some (?st4, None)" by code_simp
  have a1: "\<not> clock_Now ?env1 (clock ?st0 + 2) < contentsExpiration ?st0" by simp
  have a2: "clock_Now ?env1 (clock ?st0 + 1) <
              Time_Add (clock_Now ?env1 (clock ?st0)) ListingProxy_ModificationMemoryTTL \<and>
            clock_Now ?env1 (clock ?st0 + 3) <
              Time_Add (clock_Now ?env1 (clock ?st0)) ListingProxy_ModificationMemoryTTL"
    by (simp add: ListingProxy_ModificationMemoryTTL_def Time_Add_def Time_maxSec_def)
  have c1: "?obj \<in> set [?obj] \<and> bucket ?st2 = 1"
    using noted_object_listed [OF h1 h2 h3] a1 a2 unfolding h4 by auto
  have b1: "\<not> clock_Now ?env2 (clock ?st0 + 2) < contentsExpiration ?st0" by simp
  have b2: "gcsutil_List ?env2 (bucket ?st0) = Inl ()" by simp
  have c2: "\<exists>lp2. ListObjects ?env2 ?st1 = Some (lp2, Inl (GcsutilListFailed ())) \<and> bucket lp2 = 1"
    using noted_object_listed [OF h1 g2 g3] b1 b2 by auto
  have d1: "clock_Now ?env1 (clock ?st3 + 2) < contentsExpiration ?st3" by simp
  have d2: "bucket ?st3 = 1" by simp
  have c3: "\<exists>lp2 objects subdirs.
              ListObjects ?env1 ?st4 = Some (lp2, Inr (objects, subdirs)) \<and> bucket lp2 = 1 \<and>
              ?obj \<in> set objects"
    using noted_object_listed [OF h1 k2 k3] d1 unfolding d2 by auto
  show ?thesis
    unfolding Let_def
    apply (rule conjI, rule h1)
    apply (rule conjI, rule h2)
    apply (rule conjI, rule h3)
    apply (rule conjI, rule h4)
    apply (rule conjI, rule c1 [THEN conjunct1])
    apply (rule conjI, rule c1 [THEN conjunct2])
    apply (rule conjI, rule g2)
    apply (rule conjI, rule g3)
    apply (rule conjI, rule c2)
    apply (rule conjI, rule k2)
    apply (rule conjI, rule k3)
    apply (rule c3)
    done
qed

text \<open>
  The claim as it stands fails in two ways. First, with a clock that reads the zero
  time, the \<open>List\<close> call that follows \<open>NoteNewObject\<close> on contents never refreshed finds
  them stale and lists the bucket; when the bucket fails, the call has used the bucket
  once and returns the error of the bucket, not a listing with the object. Second, when the clock reads five minutes later
  at the \<open>List\<close> call, the refresh trims the record of the object, and the listing is that
  of the bucket, here empty, without the object.
\<close>

theorem noted_object_counterexample:
  "(let obj = \<lparr>Name = ''a/x'', payload = ()\<rparr>;
        env2 = \<lparr> clock_Now = (\<lambda>k. 0), gcsutil_List = (\<lambda>k. Inl ()) \<rparr>
               :: (unit, unit) env;
        env3 = \<lparr> clock_Now = (\<lambda>k. if k < 2 then 0 else 300000000000),
                 gcsutil_List = (\<lambda>k. Inr ([], [])) \<rparr>
               :: (unit, unit) env;
        st0 = \<lparr> bucket = 0, clock = 0, name = ''a/'', contents = [],
                 contentsExpiration = 0,
                 childModifications = [], childModificationsIndex = [],
                 nextElement = 0 \<rparr>
               :: unit ListingProxy;
        st1 = \<lparr> bucket = 0, clock = 2, name = ''a/'', contents = [(''a/x'', ObjectNode obj)],
                 contentsExpiration = 0,
                 childModifications =
                   [(0, \<lparr>m_expiration = 300000000000, m_name = ''a/x'', m_node = Some (ObjectNode obj)\<rparr>)],
                 childModificationsIndex =
                   [(''a/x'', 0, \<lparr>m_expiration = 300000000000, m_name = ''a/x'', m_node = Some (ObjectNode obj)\<rparr>)],
                 nextElement = 1 \<rparr>;
        st5 = \<lparr> bucket = 1, clock = 5, name = ''a/'', contents = [],
                 contentsExpiration = 310000000000,
                 childModifications = [], childModificationsIndex = [],
                 nextElement = 1 \<rparr>
    in NewListingProxy 0 0 ''a/'' = (Inr st0 :: unit error + unit ListingProxy) \<and>
       checkObjectName ''a/'' (Name obj) = None \<and>
       NoteNewObject env2 obj st0 = Some (st1, None) \<and>
       ListObjects env2 st1 =
         Some (st1\<lparr>clock := 3, bucket := 1\<rparr>, Inl (GcsutilListFailed ())) \<and>
       NoteNewObject env3 obj st0 = Some (st1, None) \<and>
       ListObjects env3 st1 = Some (st5, Inr ([], [])) \<and>
       obj \<notin> set [])"
  by code_simp

end
